theory Spec2Isabelle
  imports Complex_Main "HOL-Library.Multiset"
begin

section \<open>Data model\<close>

text \<open>
  Times are Python numbers (ints and floats). They are modelled as exact reals, and
  the sums, differences and comparisons the program writes are exact: floating-point
  rounding is not part of the model. The one library function whose result depends
  on rounding, \<^verbatim>\<open>numpy.arange\<close>, is a parameter of the functions that call it.

  An interval is the two-element list \<^verbatim>\<open>[starttime, endtime]\<close> of the source, as a pair.
  A Python dict is an association list in insertion order with distinct keys; a Python
  set of phase names is a list of distinct names.
\<close>

type_synonym interval = "real \<times> real"
type_synonym phase_dict = "(string \<times> interval) list"
type_synonym modephase_dict = "(string \<times> string list) list"

datatype error =
    TimeNotInPhases real
  | PhaseNotInModephases string
  | KeyError string
  | UnboundLocalError
  | ValueError
  | ArangeStepZero
  | IndexError
  | TypeError
  | GlobalPhasesOverlap
  | NoDocstring
  | OutsideLimits string
  | OutsideSetConstraints string

record PhaseMap =
  phases :: phase_dict
  modephases :: modephase_dict
  dt :: real

text \<open>Dict assignment \<^verbatim>\<open>d[k] = v\<close>: an existing key keeps its position.\<close>

fun dict_set :: "('k \<times> 'v) list \<Rightarrow> 'k \<Rightarrow> 'v \<Rightarrow> ('k \<times> 'v) list" where
  "dict_set [] k v = [(k, v)]"
| "dict_set ((k', v') # d) k v =
     (if k' = k then (k, v) # d else (k', v') # dict_set d k v)"

text \<open>Dict lookup \<^verbatim>\<open>d[k]\<close>, raising \<^verbatim>\<open>KeyError\<close> on a missing key.\<close>

definition dict_get :: "(string \<times> 'v) list \<Rightarrow> string \<Rightarrow> error + 'v" where
  "dict_get d k = (case map_of d k of None \<Rightarrow> Inl (KeyError k) | Some v \<Rightarrow> Inr v)"

text \<open>
  The argument \<^verbatim>\<open>phases\<close> of \<^verbatim>\<open>PhaseMap.__init__\<close> is either a dict or a tuple of
  \<^verbatim>\<open>(name, start, end)\<close> triples.
\<close>

datatype phases_arg =
    PhasesDict phase_dict
  | PhasesTuple "(string \<times> real \<times> real) list"

text \<open>The comprehension \<^verbatim>\<open>{ph[0]: [ph[1], ph[2]] for ph in phases}\<close>.\<close>

definition dict_of_tuple :: "(string \<times> real \<times> real) list \<Rightarrow> phase_dict" where
  "dict_of_tuple phs = foldl (\<lambda>d (n, s, e). dict_set d n (s, e)) [] phs"

text \<open>
  \<^verbatim>\<open>PhaseMap.__init__(phases, modephases={}, dt=1.0)\<close>. The constructor has no
  raising branch.
\<close>

definition PhaseMap_init :: "phases_arg \<Rightarrow> modephase_dict \<Rightarrow> real \<Rightarrow> error + PhaseMap" where
  "PhaseMap_init phs mph d =
     (let phs' = (case phs of PhasesTuple t \<Rightarrow> dict_of_tuple t | PhasesDict p \<Rightarrow> p)
      in Inr \<lparr>phases = phs', modephases = mph, dt = d\<rparr>)"

section \<open>Phase lookup\<close>

text \<open>
  \<^verbatim>\<open>PhaseMap.find_phase(time, dt=1.0)\<close>: the loop over \<^verbatim>\<open>self.phases.items()\<close>
  returns at the first phase with \<^verbatim>\<open>times[0] <= time < times[1]+dt\<close>, where \<^verbatim>\<open>dt\<close>
  is the argument of the method.
\<close>

fun find_phase_loop :: "phase_dict \<Rightarrow> real \<Rightarrow> real \<Rightarrow> string option" where
  "find_phase_loop [] time dt_arg = None"
| "find_phase_loop ((phase, ptimes) # rest) time dt_arg =
     (if fst ptimes \<le> time \<and> time < snd ptimes + dt_arg then Some phase
      else find_phase_loop rest time dt_arg)"

definition find_phase :: "PhaseMap \<Rightarrow> real \<Rightarrow> real \<Rightarrow> error + string" where
  "find_phase pm time dt_arg =
     (case find_phase_loop (phases pm) time dt_arg of
        Some phase \<Rightarrow> Inr phase
      | None \<Rightarrow> Inl (TimeNotInPhases time))"

text \<open>\<^verbatim>\<open>PhaseMap.find_modephase(phase)\<close>.\<close>

fun find_modephase_loop :: "modephase_dict \<Rightarrow> string \<Rightarrow> string option" where
  "find_modephase_loop [] phase = None"
| "find_modephase_loop ((mode, mode_phases) # rest) phase =
     (if phase \<in> set mode_phases then Some mode else find_modephase_loop rest phase)"

definition find_modephase :: "PhaseMap \<Rightarrow> string \<Rightarrow> error + string" where
  "find_modephase pm phase =
     (case find_modephase_loop (modephases pm) phase of
        Some mode \<Rightarrow> Inr mode
      | None \<Rightarrow> Inl (PhaseNotInModephases phase))"

text \<open>\<^verbatim>\<open>PhaseMap.find_base_phase(time)\<close>.\<close>

definition find_base_phase :: "PhaseMap \<Rightarrow> real \<Rightarrow> error + string" where
  "find_base_phase pm t =
     (case find_phase pm t 1 of
        Inl err \<Rightarrow> Inl err
      | Inr phase \<Rightarrow> if modephases pm \<noteq> [] then find_modephase pm phase else Inr phase)"

section \<open>Phase durations\<close>

text \<open>\<^verbatim>\<open>PhaseMap.calc_phase_time(phase)\<close>.\<close>

definition calc_phase_time :: "PhaseMap \<Rightarrow> string \<Rightarrow> error + real" where
  "calc_phase_time pm phase =
     (case dict_get (phases pm) phase of
        Inl err \<Rightarrow> Inl err
      | Inr phasetimes \<Rightarrow> Inr (snd phasetimes - fst phasetimes + dt pm))"

text \<open>
  A list comprehension \<^verbatim>\<open>[f(x) for x in xs]\<close> whose body may raise: the first failing
  call raises.
\<close>

fun comprehension :: "('a \<Rightarrow> error + 'b) \<Rightarrow> 'a list \<Rightarrow> error + 'b list" where
  "comprehension f [] = Inr []"
| "comprehension f (x # xs) =
     (case f x of
        Inl err \<Rightarrow> Inl err
      | Inr y \<Rightarrow> (case comprehension f xs of
                    Inl err \<Rightarrow> Inl err
                  | Inr ys \<Rightarrow> Inr (y # ys)))"

text \<open>\<^verbatim>\<open>PhaseMap.calc_modephase_time(modephase)\<close>.\<close>

definition calc_modephase_time :: "PhaseMap \<Rightarrow> string \<Rightarrow> error + real" where
  "calc_modephase_time pm modephase =
     (case dict_get (modephases pm) modephase of
        Inl err \<Rightarrow> Inl err
      | Inr mode_phases \<Rightarrow>
          (case comprehension (calc_phase_time pm) mode_phases of
             Inl err \<Rightarrow> Inl err
           | Inr ts \<Rightarrow> Inr (sum_list ts)))"

text \<open>
  \<^verbatim>\<open>PhaseMap.calc_scen_exposure_time(time)\<close>. The call \<^verbatim>\<open>self.find_phase(time)\<close>
  omits \<^verbatim>\<open>dt\<close>, so the default \<^verbatim>\<open>1.0\<close> is used.
\<close>

definition calc_scen_exposure_time :: "PhaseMap \<Rightarrow> real \<Rightarrow> error + real" where
  "calc_scen_exposure_time pm time =
     (case find_phase pm time 1 of
        Inl err \<Rightarrow> Inl err
      | Inr phase \<Rightarrow>
          (if modephases pm \<noteq> [] then
             (case find_modephase pm phase of
                Inl err \<Rightarrow> Inl err
              | Inr mode \<Rightarrow> calc_modephase_time pm mode)
           else calc_phase_time pm phase))"

section \<open>Counting samples\<close>

text \<open>
  The loop of \<^verbatim>\<open>PhaseMap.calc_samples_in_phases(*times)\<close> over the given times, with the
  dict \<^verbatim>\<open>phase_times\<close> as accumulator; \<^verbatim>\<open>phase_times[phase] += 1\<close> reads the entry
  before it writes it.
\<close>

fun samples_loop :: "PhaseMap \<Rightarrow> real list \<Rightarrow> (string \<times> int) list \<Rightarrow> error + (string \<times> int) list" where
  "samples_loop pm [] phase_times = Inr phase_times"
| "samples_loop pm (t # rest) phase_times =
     (case find_phase pm t 1 of
        Inl err \<Rightarrow> Inl err
      | Inr phase \<Rightarrow>
          (case (if modephases pm \<noteq> [] then find_modephase pm phase else Inr phase) of
             Inl err \<Rightarrow> Inl err
           | Inr ph \<Rightarrow>
               (case dict_get phase_times ph of
                  Inl err \<Rightarrow> Inl err
                | Inr n \<Rightarrow> samples_loop pm rest (dict_set phase_times ph (n + 1)))))"

definition calc_samples_in_phases :: "PhaseMap \<Rightarrow> real list \<Rightarrow> error + (string \<times> int) list" where
  "calc_samples_in_phases pm ts =
     samples_loop pm ts
       (if modephases pm \<noteq> [] then map (\<lambda>ph. (ph, 0)) (map fst (modephases pm))
        else map (\<lambda>ph. (ph, 0)) (map fst (phases pm)))"

text \<open>
  What it means for a time to fall in a phase, and in a modephase, independent of the
  lookup functions above: the phase is declared with an interval \<open>[start, end]\<close> and
  \<open>start \<le> t < end + dt\<close> for the timestep of the map; the modephase is declared and the
  time falls in one of its phases.
\<close>

definition time_in_phase :: "PhaseMap \<Rightarrow> string \<Rightarrow> real \<Rightarrow> bool" where
  "time_in_phase pm ph t =
     (case map_of (phases pm) ph of
        None \<Rightarrow> False
      | Some iv \<Rightarrow> fst iv \<le> t \<and> t < snd iv + dt pm)"

definition time_in_modephase :: "PhaseMap \<Rightarrow> string \<Rightarrow> real \<Rightarrow> bool" where
  "time_in_modephase pm m t =
     (case map_of (modephases pm) m of
        None \<Rightarrow> False
      | Some phs \<Rightarrow> list_ex (\<lambda>ph. time_in_phase pm ph t) phs)"

section \<open>Sample instants\<close>

text \<open>
  \<^verbatim>\<open>numpy.arange(start, stop, step)\<close> is a function of the numpy library, not of this
  program. With float arguments numpy computes the number of values and the values
  themselves in double precision, so its result on given arguments is not fixed by
  exact arithmetic: \<^verbatim>\<open>np.arange(1, 1.3, 0.1)\<close> has the four values \<^verbatim>\<open>1.0, 1.1, 1.2, 1.3\<close>.
  The functions below that call it therefore take it as their first argument
  \<open>np_arange\<close>, the list of values it returns for a step that is not zero.

  \<open>arange_values\<close> is the result numpy documents, and returns whenever its double
  computations are exact, as they are for the integers and halves of the examples: the values
  \<open>start + k * step\<close> for \<open>k = 0, \<dots>, \<lceil>(stop - start) / step\<rceil> - 1\<close>, and none when that count
  is not positive.
\<close>

definition arange_values :: "real \<Rightarrow> real \<Rightarrow> real \<Rightarrow> real list" where
  "arange_values start stop step =
     map (\<lambda>k. start + real k * step) [0 ..< nat \<lceil>(stop - start) / step\<rceil>]"

text \<open>
  \<^verbatim>\<open>gen_interval_times(interval, dt)\<close>: \<^verbatim>\<open>np.arange(interval[0], interval[-1] + dt, dt)\<close>,
  which raises for a zero step.
\<close>

definition gen_interval_times ::
  "(real \<Rightarrow> real \<Rightarrow> real \<Rightarrow> real list) \<Rightarrow> interval \<Rightarrow> real \<Rightarrow> error + real list" where
  "gen_interval_times np_arange interval dt_arg =
     (if dt_arg = 0 then Inl ArangeStepZero
      else Inr (np_arange (fst interval) (snd interval + dt_arg) dt_arg))"

text \<open>
  \<^verbatim>\<open>PhaseMap.get_phase_times(phase)\<close>. When the name is neither a modephase nor a phase,
  the variable \<^verbatim>\<open>intervals\<close> is unbound at its first use; \<^verbatim>\<open>np.concatenate\<close> raises on
  an empty list of arrays; \<^verbatim>\<open>list(set(...))\<close> followed by \<^verbatim>\<open>sort()\<close> is the sorted list
  without duplicates.
\<close>

definition get_phase_times ::
  "(real \<Rightarrow> real \<Rightarrow> real \<Rightarrow> real list) \<Rightarrow> PhaseMap \<Rightarrow> string \<Rightarrow> error + real list" where
  "get_phase_times np_arange pm phase =
     (case (case map_of (modephases pm) phase of
              Some phs \<Rightarrow> comprehension (dict_get (phases pm)) phs
            | None \<Rightarrow>
                (case map_of (phases pm) phase of
                   Some iv \<Rightarrow> Inr [iv]
                 | None \<Rightarrow> Inl UnboundLocalError)) of
        Inl err \<Rightarrow> Inl err
      | Inr intervals \<Rightarrow>
          (case comprehension (\<lambda>i. gen_interval_times np_arange i (dt pm)) intervals of
             Inl err \<Rightarrow> Inl err
           | Inr int_times \<Rightarrow>
               if int_times = [] then Inl ValueError
               else Inr (sort (remdups (concat int_times)))))"

text \<open>The loop of \<^verbatim>\<open>PhaseMap.get_sample_times\<close> filling the dict \<^verbatim>\<open>sampletimes\<close>.\<close>

fun sampletimes_loop ::
  "(real \<Rightarrow> real \<Rightarrow> real \<Rightarrow> real list) \<Rightarrow> PhaseMap \<Rightarrow> string list \<Rightarrow>
   (string \<times> real list) list \<Rightarrow> error + (string \<times> real list) list" where
  "sampletimes_loop np_arange pm [] sampletimes = Inr sampletimes"
| "sampletimes_loop np_arange pm (phase # rest) sampletimes =
     (case get_phase_times np_arange pm phase of
        Inl err \<Rightarrow> Inl err
      | Inr ts \<Rightarrow> sampletimes_loop np_arange pm rest (dict_set sampletimes phase ts))"

text \<open>\<^verbatim>\<open>PhaseMap.get_sample_times(*phases_to_sample)\<close>.\<close>

definition default_phases_to_sample :: "PhaseMap \<Rightarrow> string list \<Rightarrow> string list" where
  "default_phases_to_sample pm phases_to_sample =
     (if phases_to_sample = [] then
        (if modephases pm \<noteq> [] then map fst (modephases pm)
         else if phases pm \<noteq> [] then map fst (phases pm)
         else phases_to_sample)
      else phases_to_sample)"

definition get_sample_times ::
  "(real \<Rightarrow> real \<Rightarrow> real \<Rightarrow> real list) \<Rightarrow> PhaseMap \<Rightarrow> string list \<Rightarrow>
   error + (string \<times> real list) list" where
  "get_sample_times np_arange pm phases_to_sample =
     sampletimes_loop np_arange pm (default_phases_to_sample pm phases_to_sample) []"

section \<open>Overlap of intervals for joint fault modes\<close>

text \<open>
  An entry of the argument of \<^verbatim>\<open>find_overlap_n\<close> is a list: one interval, whose first
  element is a number, or a list of intervals. The source tells them apart by
  \<^verbatim>\<open>type(interval[0]) in [float, int]\<close>, which holds for a Python number and fails for a
  numpy scalar such as \<^verbatim>\<open>np.float64\<close>; so an interval carries the kind of its first
  element.
\<close>

datatype number_type = PythonNumber | NumpyScalar

datatype interval_entry =
    Single number_type interval
  | Multi "interval list"

text \<open>
  The set \<^verbatim>\<open>possible_times\<close> of one entry, as a list without duplicates. An interval
  of Python numbers is wrapped into a list of one interval. An interval of numpy scalars
  is not: the comprehension then iterates over its two endpoints, and indexing the
  scalar \<^verbatim>\<open>i[0]\<close> raises \<^verbatim>\<open>IndexError\<close>, as indexing \<^verbatim>\<open>interval[0]\<close> on an empty list
  does. \<^verbatim>\<open>np.arange(i[0], i[-1]+1)\<close> has the step \<open>1\<close>.
\<close>

definition possible_times ::
  "(real \<Rightarrow> real \<Rightarrow> real \<Rightarrow> real list) \<Rightarrow> interval_entry \<Rightarrow> error + real list" where
  "possible_times np_arange entry =
     (case entry of
        Single PythonNumber iv \<Rightarrow> Inr (remdups (np_arange (fst iv) (snd iv + 1) 1))
      | Single NumpyScalar iv \<Rightarrow> Inl IndexError
      | Multi [] \<Rightarrow> Inl IndexError
      | Multi ivs \<Rightarrow>
          Inr (remdups (concat (map (\<lambda>i. np_arange (fst i) (snd i + 1) 1) ivs))))"

fun overlap_n_loop ::
  "(real \<Rightarrow> real \<Rightarrow> real \<Rightarrow> real list) \<Rightarrow> nat \<Rightarrow> interval_entry list \<Rightarrow> real list \<Rightarrow> nat list \<Rightarrow>
   error + (real list \<times> nat list)" where
  "overlap_n_loop np_arange i [] joined_times intervals_times =
     Inr (joined_times, intervals_times)"
| "overlap_n_loop np_arange i (entry # rest) joined_times intervals_times =
     (case possible_times np_arange entry of
        Inl err \<Rightarrow> Inl err
      | Inr possible \<Rightarrow>
          overlap_n_loop np_arange (i + 1) rest
            (if i = 0 then possible else filter (\<lambda>t. t \<in> set possible) joined_times)
            (intervals_times @ [length possible]))"

text \<open>
  The comparison \<^verbatim>\<open>intervals[0] == i\<close> of two entries: Python compares the lists by
  their elements, whatever the type of the numbers.
\<close>

fun entry_eq :: "interval_entry \<Rightarrow> interval_entry \<Rightarrow> bool" where
  "entry_eq (Single k1 iv1) (Single k2 iv2) = (iv1 = iv2)"
| "entry_eq (Multi ivs1) (Multi ivs2) = (ivs1 = ivs2)"
| "entry_eq (Single k iv) (Multi ivs) = False"
| "entry_eq (Multi ivs) (Single k iv) = False"

text \<open>
  The three kinds of value \<^verbatim>\<open>find_overlap_n\<close> returns: the pair of the common times and
  the sizes of the entries' time sets, and in the \<^verbatim>\<open>except IndexError\<close> branch the first
  entry or \<^verbatim>\<open>0\<close>.
\<close>

datatype overlap_result =
    Overlap "real list" "nat list"
  | FirstEntry interval_entry
  | Zero

definition find_overlap_n ::
  "(real \<Rightarrow> real \<Rightarrow> real \<Rightarrow> real list) \<Rightarrow> interval_entry list \<Rightarrow> overlap_result" where
  "find_overlap_n np_arange intervals =
     (case overlap_n_loop np_arange 0 intervals [] [] of
        Inr (joined_times, intervals_times) \<Rightarrow>
          if joined_times = [] then Overlap [] intervals_times
          else Overlap (sort joined_times) intervals_times
      | Inl err \<Rightarrow>
          if list_all (\<lambda>i. entry_eq (hd intervals) i) intervals then FirstEntry (hd intervals)
          else Zero)"

text \<open>The set of times of one entry: what \<open>possible_times\<close> computes for it.\<close>

definition entry_times ::
  "(real \<Rightarrow> real \<Rightarrow> real \<Rightarrow> real list) \<Rightarrow> interval_entry \<Rightarrow> real set" where
  "entry_times np_arange entry =
     (case possible_times np_arange entry of Inr ts \<Rightarrow> set ts | Inl err \<Rightarrow> {})"

section \<open>Simulation parameters: the overlap check\<close>

text \<open>
  The loop of \<^verbatim>\<open>SimParam.find_any_phase_overlap\<close> over \<^verbatim>\<open>enumerate(int_low)\<close>.
\<close>

fun overlap_loop :: "nat \<Rightarrow> real list \<Rightarrow> real list \<Rightarrow> real list \<Rightarrow> error + unit" where
  "overlap_loop i [] int_low int_high = Inr ()"
| "overlap_loop i (il # rest) int_low int_high =
     (if i + 1 = length int_low then Inr ()
      else if int_low ! (i + 1) \<le> int_high ! i then Inl GlobalPhasesOverlap
      else overlap_loop (i + 1) rest int_low int_high)"

text \<open>
  \<^verbatim>\<open>SimParam.find_any_phase_overlap()\<close>, on the field \<^verbatim>\<open>self.phases\<close>, a tuple of
  \<^verbatim>\<open>(name, start, end)\<close> triples.
\<close>

definition find_any_phase_overlap :: "(string \<times> real \<times> real) list \<Rightarrow> error + unit" where
  "find_any_phase_overlap sp_phases =
     (let phase_dict = dict_of_tuple sp_phases;
          intervals = map snd phase_dict;
          int_low = sort (map fst intervals);
          int_high = sort (map snd intervals)
      in overlap_loop 0 int_low int_low int_high)"

section \<open>Parameters: the limit check\<close>

text \<open>
  A field value is a number or a string. A Parameter class is described by what
  \<^verbatim>\<open>Parameter.__init__\<close> and \<^verbatim>\<open>check_lim\<close> read from it: whether it has a docstring, its
  \<^verbatim>\<open>__fields__\<close>, and the class attributes \<^verbatim>\<open>k_lim\<close> (a pair of numbers) and \<^verbatim>\<open>k_set\<close>
  (a tuple of values).
\<close>

datatype pyval = Num real | Str string

record param_class =
  has_doc :: bool
  class_fields :: "string list"
  lims :: "(string \<times> (real \<times> real)) list"
  sets :: "(string \<times> pyval list) list"

text \<open>
  \<^verbatim>\<open>Parameter.check_lim(k, v)\<close>. Comparing a number with a string raises
  \<^verbatim>\<open>TypeError\<close>; an empty \<^verbatim>\<open>k_set\<close> is falsy, so it is not checked.
\<close>

definition check_lim :: "param_class \<Rightarrow> string \<Rightarrow> pyval \<Rightarrow> error + unit" where
  "check_lim cls k v =
     (case (case map_of (lims cls) k of
              None \<Rightarrow> Inr ()
            | Some var_lims \<Rightarrow>
                (case v of
                   Str s \<Rightarrow> Inl TypeError
                 | Num x \<Rightarrow>
                     if \<not> (fst var_lims \<le> x \<and> x \<le> snd var_lims) then Inl (OutsideLimits k)
                     else Inr ())) of
        Inl err \<Rightarrow> Inl err
      | Inr u \<Rightarrow>
          (case map_of (sets cls) k of
             None \<Rightarrow> Inr ()
           | Some var_set \<Rightarrow>
               if var_set \<noteq> [] \<and> \<not> (v \<in> set var_set) then Inl (OutsideSetConstraints k)
               else Inr ()))"

text \<open>The loop over \<^verbatim>\<open>enumerate(self.__fields__)\<close> in \<^verbatim>\<open>Parameter.__init__\<close>.\<close>

fun check_lim_loop ::
  "param_class \<Rightarrow> nat \<Rightarrow> string list \<Rightarrow> pyval list \<Rightarrow> (string \<times> pyval) list \<Rightarrow> error + unit" where
  "check_lim_loop cls i [] args kwargs = Inr ()"
| "check_lim_loop cls i (k # rest) args kwargs =
     (case (if i < length args then check_lim cls k (args ! i)
            else (case map_of kwargs k of
                    Some v \<Rightarrow> check_lim cls k v
                  | None \<Rightarrow> Inr ())) of
        Inl err \<Rightarrow> Inl err
      | Inr u \<Rightarrow> check_lim_loop cls (i + 1) rest args kwargs)"

text \<open>
  The positional arguments of \<^verbatim>\<open>Parameter.__init__\<close>: values, or an instance of the
  class itself, which \<^verbatim>\<open>astuple\<close> turns into its field values.
\<close>

datatype init_args = Positional "pyval list" | FromInstance "pyval list"

text \<open>
  \<^verbatim>\<open>Parameter.__init__(*args, check_lim=True, ..., **kwargs)\<close>. The steps after the limit
  check (\<^verbatim>\<open>set_arg_type\<close>, the record constructor, \<^verbatim>\<open>check_immutable\<close>, \<^verbatim>\<open>check_type\<close>,
  \<^verbatim>\<open>check_pickle\<close>) belong to the base container and are the parameter \<open>build\<close>.
\<close>

fun init_values :: "init_args \<Rightarrow> pyval list" where
  "init_values (Positional vs) = vs"
| "init_values (FromInstance vs) = vs"

definition Parameter_init ::
  "param_class \<Rightarrow> init_args \<Rightarrow> (string \<times> pyval) list \<Rightarrow> bool \<Rightarrow>
   (pyval list \<Rightarrow> (string \<times> pyval) list \<Rightarrow> error + 'p) \<Rightarrow> error + 'p" where
  "Parameter_init cls args kwargs check_lim_flag build =
     (if \<not> has_doc cls then Inl NoDocstring
      else
        (case (if check_lim_flag
               then check_lim_loop cls 0 (class_fields cls) (init_values args) kwargs
               else Inr ()) of
           Inl err \<Rightarrow> Inl err
         | Inr u \<Rightarrow> build (init_values args) kwargs))"

text \<open>The class \<^verbatim>\<open>ExampleParameter\<close> of the source.\<close>

definition ExampleParameter :: param_class where
  "ExampleParameter =
     \<lparr>has_doc = True, class_fields = [''x'', ''y'', ''z''],
      lims = [(''x'', (0, 10))],
      sets = [(''y'', [Num 1, Num 2, Num 3, Num 4])]\<rparr>"

text \<open>
  The value the loop of \<^verbatim>\<open>Parameter.__init__\<close> checks for the field at index \<open>i\<close>: the
  positional argument at that index, else the keyword argument of the field's name,
  else none.
\<close>

definition supplied :: "param_class \<Rightarrow> pyval list \<Rightarrow> (string \<times> pyval) list \<Rightarrow> nat \<Rightarrow> pyval option" where
  "supplied cls args kwargs i =
     (if i < length args then Some (args ! i) else map_of kwargs (class_fields cls ! i))"

section \<open>Timers\<close>

record Timer =
  name :: string
  time :: real
  tstep :: real
  mode :: string

text \<open>\<^verbatim>\<open>Timer.__init__(name='')\<close>.\<close>

definition Timer_init :: "string \<Rightarrow> Timer" where
  "Timer_init n = \<lparr>name = n, time = 0, tstep = - 1, mode = ''standby''\<rparr>"

text \<open>
  \<^verbatim>\<open>Timer.inc(tstep=[])\<close>: the argument is \<open>None\<close> when omitted; a given step of zero
  is falsy, so the timer's own step is used then too.
\<close>

definition inc :: "Timer \<Rightarrow> real option \<Rightarrow> Timer" where
  "inc tm tstep_arg =
     (let tm1 = (if time tm \<ge> 0 then
                   tm\<lparr>time := time tm + (case tstep_arg of
                                           Some x \<Rightarrow> if x \<noteq> 0 then x else tstep tm
                                         | None \<Rightarrow> tstep tm),
                      mode := ''ticking''\<rparr>
                 else tm)
      in if time tm1 \<le> 0 then tm1\<lparr>time := 0, mode := ''complete''\<rparr> else tm1)"

text \<open>\<^verbatim>\<open>Timer.reset()\<close>.\<close>

definition reset :: "Timer \<Rightarrow> Timer" where
  "reset tm = tm\<lparr>time := 0, mode := ''standby''\<rparr>"

text \<open>A call of \<^verbatim>\<open>inc()\<close> with the default step, or of \<^verbatim>\<open>reset()\<close>.\<close>

datatype timer_call = Inc | Reset

fun do_call :: "Timer \<Rightarrow> timer_call \<Rightarrow> Timer" where
  "do_call tm Inc = inc tm None"
| "do_call tm Reset = reset tm"

definition run_calls :: "Timer \<Rightarrow> timer_call list \<Rightarrow> Timer" where
  "run_calls tm calls = foldl do_call tm calls"

section \<open>Properties of phase lookup\<close>

lemma find_phase_loop_Some:
  "find_phase_loop phs t d = Some p \<Longrightarrow>
     \<exists>s e. (p, (s, e)) \<in> set phs \<and> s \<le> t \<and> t < e + d"
  by (induction phs t d rule: find_phase_loop.induct) (fastforce split: if_splits)+

lemma find_phase_loop_None:
  "(find_phase_loop phs t d = None) = (\<forall>(p, (s, e)) \<in> set phs. \<not> (s \<le> t \<and> t < e + d))"
  by (induction phs t d rule: find_phase_loop.induct) (auto split: if_splits)

lemma find_phase_loop_Some_first:
  "find_phase_loop phs t d = Some p \<Longrightarrow>
     \<exists>pre s e post. phs = pre @ (p, (s, e)) # post \<and> s \<le> t \<and> t < e + d
        \<and> (\<forall>(q, (s', e')) \<in> set pre. \<not> (s' \<le> t \<and> t < e' + d))"
proof (induction phs)
  case Nil
  then show ?case by simp
next
  case (Cons a phs)
  obtain q s e where a: "a = (q, (s, e))" by (cases a) auto
  show ?case
  proof (cases "s \<le> t \<and> t < e + d")
    case True
    with Cons.prems a have "p = q" by simp
    with True a show ?thesis
      by (intro exI [of _ "[]"] exI [of _ s] exI [of _ e] exI [of _ phs]) simp
  next
    case False
    with Cons.prems a have "find_phase_loop phs t d = Some p" by auto
    then have "\<exists>pre s e post. phs = pre @ (p, (s, e)) # post \<and> s \<le> t \<and> t < e + d
        \<and> (\<forall>(q, (s', e')) \<in> set pre. \<not> (s' \<le> t \<and> t < e' + d))"
      by (rule Cons.IH)
    then obtain pre s1 e1 post where
      r: "phs = pre @ (p, (s1, e1)) # post \<and> s1 \<le> t \<and> t < e1 + d
         \<and> (\<forall>(q, (s', e')) \<in> set pre. \<not> (s' \<le> t \<and> t < e' + d))"
      by (elim exE)
    show ?thesis
      using r False a
      by (intro exI [of _ "a # pre"] exI [of _ s1] exI [of _ e1] exI [of _ post]) simp
  qed
qed

text \<open>
  C2 (as amended): when \<open>find_phase\<close> is given the timestep of the map as its step, which
  is what the call \<^verbatim>\<open>find_phase(t)\<close> with its default step \<open>1.0\<close> does on a map whose \<open>dt\<close>
  is \<open>1.0\<close>, it returns the name of the first declared phase with
  \<open>start \<le> t < end + dt\<close>; it raises when the time is outside all these extended
  intervals, and in no other case, so no default phase is ever returned.
\<close>

theorem find_phase_with_step_of_map:
  "(find_phase pm t (dt pm) = Inr p \<longrightarrow>
      (\<exists>pre s e post. phases pm = pre @ (p, (s, e)) # post \<and> s \<le> t \<and> t < e + dt pm
         \<and> (\<forall>(q, (s', e')) \<in> set pre. \<not> (s' \<le> t \<and> t < e' + dt pm))))
   \<and> ((\<forall>(q, (s, e)) \<in> set (phases pm). t < s \<or> e + dt pm \<le> t) \<longrightarrow>
        find_phase pm t (dt pm) = Inl (TimeNotInPhases t))
   \<and> (find_phase pm t (dt pm) = Inl err \<longrightarrow>
        err = TimeNotInPhases t \<and> (\<forall>(q, (s, e)) \<in> set (phases pm). t < s \<or> e + dt pm \<le> t))
   \<and> (dt pm = 1 \<longrightarrow> find_phase pm t 1 = find_phase pm t (dt pm))"
  (is "(?ret \<longrightarrow> ?first) \<and> (?outside \<longrightarrow> ?raises) \<and> (?raised \<longrightarrow> ?was_outside) \<and> ?default")
proof -
  have p1: "?ret \<longrightarrow> ?first"
  proof
    assume ?ret
    then have "find_phase_loop (phases pm) t (dt pm) = Some p"
      by (simp add: find_phase_def split: option.splits)
    then show ?first
      by (rule find_phase_loop_Some_first)
  qed
  have p2: "?outside \<longrightarrow> ?raises"
  proof
    assume ?outside
    then have "find_phase_loop (phases pm) t (dt pm) = None"
      unfolding find_phase_loop_None by (auto simp: not_le not_less)
    then show ?raises
      by (simp add: find_phase_def)
  qed
  have p3: "?raised \<longrightarrow> ?was_outside"
  proof
    assume a: ?raised
    then have n: "find_phase_loop (phases pm) t (dt pm) = None"
      by (simp add: find_phase_def split: option.splits)
    have "err = TimeNotInPhases t"
      using a by (simp add: find_phase_def split: option.splits)
    moreover have "\<forall>(q, (s, e)) \<in> set (phases pm). t < s \<or> e + dt pm \<le> t"
      using n unfolding find_phase_loop_None by (auto simp: not_le not_less)
    ultimately show ?was_outside by simp
  qed
  have p4: ?default
    by simp
  show ?thesis
    by (rule conjI [OF p1 conjI [OF p2 conjI [OF p3 p4]]])
qed

theorem find_phase_with_step_of_map_witness:
  "find_phase \<lparr>phases = [(''a'', (0, 3)), (''b'', (7 / 2, 5))], modephases = [], dt = 1 / 2\<rparr>
      (37 / 10) (1 / 2) = Inr ''b''
   \<and> ((6 :: real) < 0 \<or> (3 :: real) + 1 / 2 \<le> 6) \<and> ((6 :: real) < 7 / 2 \<or> (5 :: real) + 1 / 2 \<le> 6)
   \<and> find_phase \<lparr>phases = [(''a'', (0, 3)), (''b'', (7 / 2, 5))], modephases = [], dt = 1 / 2\<rparr>
        6 (1 / 2) = Inl (TimeNotInPhases 6)
   \<and> dt \<lparr>phases = [(''on'', (0, 3)), (''off'', (4, 5))], modephases = [], dt = 1\<rparr> = 1
   \<and> find_phase \<lparr>phases = [(''on'', (0, 3)), (''off'', (4, 5))], modephases = [], dt = 1\<rparr> 2 1
        = find_phase \<lparr>phases = [(''on'', (0, 3)), (''off'', (4, 5))], modephases = [], dt = 1\<rparr> 2
            (dt \<lparr>phases = [(''on'', (0, 3)), (''off'', (4, 5))], modephases = [], dt = 1\<rparr>)"
proof -
  let ?pm = "\<lparr>phases = [(''a'', (0, 3)), (''b'', (7 / 2, 5))], modephases = [], dt = 1 / 2\<rparr>"
  let ?on = "\<lparr>phases = [(''on'', (0, 3)), (''off'', (4, 5))], modephases = [], dt = 1\<rparr>"
  have r: "find_phase ?pm (37 / 10) (1 / 2) = Inr ''b''"
    by (simp add: find_phase_def)
  have out: "\<forall>(q, (s, e)) \<in> set (phases ?pm). 6 < s \<or> e + dt ?pm \<le> 6"
    by simp
  have c2: "find_phase ?pm 6 (dt ?pm) = Inl (TimeNotInPhases 6)"
    by (rule find_phase_with_step_of_map
          [where pm = ?pm and t = 6, THEN conjunct2, THEN conjunct1, THEN mp, OF out])
  have one: "dt ?on = 1"
    by simp
  have c3: "find_phase ?on 2 1 = find_phase ?on 2 (dt ?on)"
    by (rule find_phase_with_step_of_map
          [where pm = ?on and t = 2, THEN conjunct2, THEN conjunct2, THEN conjunct2, THEN mp, OF one])
  show ?thesis
    using r c2 c3 by simp
qed

text \<open>
  C2 as stated fails: a time strictly outside all declared intervals is not an error
  when it is less than one step after the end of a phase. For \<open>on = [0, 3]\<close>,
  \<open>off = [4, 5]\<close> and \<open>dt = 1.0\<close>, \<^verbatim>\<open>find_phase(3.5)\<close> is \<open>on\<close> and \<^verbatim>\<open>find_phase(5.5)\<close> is \<open>off\<close>.
\<close>

theorem find_phase_gap_counterexample:
  "find_phase \<lparr>phases = [(''on'', (0, 3)), (''off'', (4, 5))], modephases = [], dt = 1\<rparr> (7 / 2) 1
      = Inr ''on''
   \<and> (3 :: real) < 7 / 2 \<and> (7 / 2 :: real) < 4
   \<and> find_phase \<lparr>phases = [(''on'', (0, 3)), (''off'', (4, 5))], modephases = [], dt = 1\<rparr> (11 / 2) 1
      = Inr ''off''
   \<and> (5 :: real) < 11 / 2"
  by (simp add: find_phase_def)

lemma find_phase_loop_first:
  "\<forall>(q, (s', e')) \<in> set pre. \<not> (s' \<le> t \<and> t < e' + d) \<Longrightarrow> s \<le> t \<Longrightarrow> t < e + d \<Longrightarrow>
     find_phase_loop (pre @ (p, (s, e)) # post) t d = Some p"
  by (induction pre) auto

lemma find_phase_dt_update: "find_phase (pm\<lparr>dt := x\<rparr>) t d = find_phase pm t d"
  by (simp add: find_phase_def)

lemma find_modephase_dt_update: "find_modephase (pm\<lparr>dt := x\<rparr>) p = find_modephase pm p"
  by (simp add: find_modephase_def)

lemma samples_loop_dt_update:
  "samples_loop (pm\<lparr>dt := x\<rparr>) ts acc = samples_loop pm ts acc"
  by (induction ts arbitrary: acc)
     (simp_all add: find_phase_dt_update find_modephase_dt_update split: sum.splits)

text \<open>
  C9: \<open>find_phase\<close> tests containment with the step given as its argument and never
  reads the \<open>dt\<close> field of the PhaseMap; it returns the first phase in declaration order
  whose extended interval contains the time. \<open>calc_samples_in_phases\<close> and
  \<open>calc_scen_exposure_time\<close> call it with the default step \<open>1.0\<close>: for a map built with
  \<open>dt = 0.5\<close> and phases \<open>a = [0, 3]\<close>, \<open>b = [3.5, 5]\<close>, the time \<open>3.7\<close> is classified
  as \<open>a\<close> (against \<open>3 + 1.0\<close>), although \<open>3.7\<close> is beyond \<open>3 + 0.5\<close>. For the overlapping
  intervals \<open>a = [0, 5]\<close>, \<open>b = [3, 8]\<close> the time \<open>4\<close> is in the earlier phase \<open>a\<close>.
\<close>

theorem find_phase_uses_argument_dt:
  "find_phase (pm\<lparr>dt := x\<rparr>) t d = find_phase pm t d
   \<and> (phases pm = pre @ (p, (s, e)) # post \<and> s \<le> t \<and> t < e + d
        \<and> (\<forall>(q, (s', e')) \<in> set pre. \<not> (s' \<le> t \<and> t < e' + d))
      \<longrightarrow> find_phase pm t d = Inr p)
   \<and> calc_samples_in_phases (pm\<lparr>dt := x\<rparr>) ts = calc_samples_in_phases pm ts
   \<and> (modephases pm = [] \<longrightarrow>
        calc_scen_exposure_time pm t =
          (case find_phase pm t 1 of Inl err \<Rightarrow> Inl err | Inr ph \<Rightarrow> calc_phase_time pm ph))
   \<and> find_phase \<lparr>phases = [(''a'', (0, 3)), (''b'', (7 / 2, 5))], modephases = [], dt = 1 / 2\<rparr>
        (37 / 10) 1 = Inr ''a''
   \<and> find_phase \<lparr>phases = [(''a'', (0, 3)), (''b'', (7 / 2, 5))], modephases = [], dt = 1 / 2\<rparr>
        (37 / 10) (1 / 2) = Inr ''b''
   \<and> calc_scen_exposure_time
        \<lparr>phases = [(''a'', (0, 3)), (''b'', (7 / 2, 5))], modephases = [], dt = 1 / 2\<rparr>
        (37 / 10) = Inr (7 / 2)
   \<and> calc_samples_in_phases
        \<lparr>phases = [(''a'', (0, 3)), (''b'', (7 / 2, 5))], modephases = [], dt = 1 / 2\<rparr>
        [37 / 10] = Inr [(''a'', 1), (''b'', 0)]
   \<and> find_phase \<lparr>phases = [(''a'', (0, 5)), (''b'', (3, 8))], modephases = [], dt = 1\<rparr> 4 1
        = Inr ''a''"
proof (intro conjI impI)
  show "find_phase (pm\<lparr>dt := x\<rparr>) t d = find_phase pm t d"
    by (rule find_phase_dt_update)
next
  assume "phases pm = pre @ (p, (s, e)) # post \<and> s \<le> t \<and> t < e + d
        \<and> (\<forall>(q, (s', e')) \<in> set pre. \<not> (s' \<le> t \<and> t < e' + d))"
  then show "find_phase pm t d = Inr p"
    by (simp add: find_phase_def find_phase_loop_first)
next
  show "calc_samples_in_phases (pm\<lparr>dt := x\<rparr>) ts = calc_samples_in_phases pm ts"
    by (simp add: calc_samples_in_phases_def samples_loop_dt_update)
next
  assume "modephases pm = []"
  then show "calc_scen_exposure_time pm t =
          (case find_phase pm t 1 of Inl err \<Rightarrow> Inl err | Inr ph \<Rightarrow> calc_phase_time pm ph)"
    by (simp add: calc_scen_exposure_time_def split: sum.splits)
qed (simp_all add: find_phase_def calc_scen_exposure_time_def calc_phase_time_def
       calc_samples_in_phases_def dict_get_def)

theorem find_phase_uses_argument_dt_witness:
  "phases \<lparr>phases = [(''a'', (0, 5)), (''b'', (3, 8))], modephases = [], dt = 2\<rparr>
      = [] @ (''a'', (0, 5)) # [(''b'', (3, 8))]
   \<and> (0::real) \<le> 4 \<and> (4::real) < 5 + 1
   \<and> modephases \<lparr>phases = [(''a'', (0, 5)), (''b'', (3, 8))], modephases = [], dt = 2\<rparr> = []
   \<and> find_phase \<lparr>phases = [(''a'', (0, 5)), (''b'', (3, 8))], modephases = [], dt = 2\<rparr> 4 1
        = Inr ''a''
   \<and> calc_scen_exposure_time \<lparr>phases = [(''a'', (0, 5)), (''b'', (3, 8))], modephases = [], dt = 2\<rparr> 4
        = Inr 7"
  using find_phase_uses_argument_dt
    [where pm = "\<lparr>phases = [(''a'', (0, 5)), (''b'', (3, 8))], modephases = [], dt = 2\<rparr>"
       and t = 4 and d = 1 and pre = "[]" and p = "''a''" and s = 0 and e = 5
       and post = "[(''b'', (3, 8))]"]
  by (simp add: calc_phase_time_def dict_get_def)

section \<open>Properties of phase durations\<close>

text \<open>
  C3: for a declared phase with interval \<open>[start, end]\<close>, \<open>calc_phase_time\<close> returns
  \<open>end - start + dt\<close> with the timestep of the PhaseMap; for the phase \<open>[0, 4]\<close> and
  \<open>dt = 1.0\<close> this is \<open>5.0\<close>.
\<close>

theorem calc_phase_time_inclusive:
  "(map_of (phases pm) phase = Some (start, end') \<longrightarrow>
      calc_phase_time pm phase = Inr (end' - start + dt pm))
   \<and> calc_phase_time \<lparr>phases = [(''on'', (0, 4)), (''off'', (5, 10))],
                       modephases = [], dt = 1\<rparr> ''on'' = Inr 5"
  by (simp add: calc_phase_time_def dict_get_def)

theorem calc_phase_time_inclusive_witness:
  "map_of (phases \<lparr>phases = [(''a'', (2, 7))], modephases = [], dt = 1 / 2\<rparr>) ''a'' = Some (2, 7)
   \<and> calc_phase_time \<lparr>phases = [(''a'', (2, 7))], modephases = [], dt = 1 / 2\<rparr> ''a''
       = Inr (11 / 2)"
  using calc_phase_time_inclusive
    [of "\<lparr>phases = [(''a'', (2, 7))], modephases = [], dt = 1 / 2\<rparr>" "''a''" 2 7]
  by simp

lemma comprehension_Inr:
  "(\<forall>x\<in>set xs. f x = Inr (g x)) \<Longrightarrow> comprehension f xs = Inr (map g xs)"
  by (induction xs) simp_all

text \<open>
  C4: for a mode of the grouping whose phases all have a phase time,
  \<open>calc_modephase_time\<close> returns the sum of \<open>calc_phase_time\<close> over the phases mapped to
  that mode; a mode mapping to the phases \<open>[0, 1]\<close> and \<open>[2, 3]\<close> with \<open>dt = 1.0\<close> gives
  \<open>4.0\<close>.
\<close>

theorem calc_modephase_time_sum:
  "(map_of (modephases pm) m = Some phs \<and> distinct phs
      \<and> (\<forall>ph\<in>set phs. calc_phase_time pm ph = Inr (T ph))
     \<longrightarrow> calc_modephase_time pm m = Inr (\<Sum>ph\<in>set phs. T ph))
   \<and> calc_modephase_time
        \<lparr>phases = [(''on1'', (0, 1)), (''on2'', (2, 3))],
         modephases = [(''on'', [''on1'', ''on2''])], dt = 1\<rparr> ''on'' = Inr 4"
proof (intro conjI impI)
  assume a: "map_of (modephases pm) m = Some phs \<and> distinct phs
      \<and> (\<forall>ph\<in>set phs. calc_phase_time pm ph = Inr (T ph))"
  then have "comprehension (calc_phase_time pm) phs = Inr (map T phs)"
    by (simp add: comprehension_Inr)
  with a show "calc_modephase_time pm m = Inr (\<Sum>ph\<in>set phs. T ph)"
    by (simp add: calc_modephase_time_def dict_get_def sum_list_distinct_conv_sum_set)
next
  show "calc_modephase_time
        \<lparr>phases = [(''on1'', (0, 1)), (''on2'', (2, 3))],
         modephases = [(''on'', [''on1'', ''on2''])], dt = 1\<rparr> ''on'' = Inr 4"
    by (simp add: calc_modephase_time_def calc_phase_time_def dict_get_def)
qed

theorem calc_modephase_time_sum_witness:
  "map_of (modephases \<lparr>phases = [(''a'', (0, 2)), (''b'', (5, 6))],
         modephases = [(''m'', [''a'', ''b''])], dt = 1 / 2\<rparr>) ''m'' = Some [''a'', ''b'']
   \<and> distinct [''a'', ''b'']
   \<and> calc_phase_time \<lparr>phases = [(''a'', (0, 2)), (''b'', (5, 6))],
         modephases = [(''m'', [''a'', ''b''])], dt = 1 / 2\<rparr> ''a'' = Inr (5 / 2)
   \<and> calc_phase_time \<lparr>phases = [(''a'', (0, 2)), (''b'', (5, 6))],
         modephases = [(''m'', [''a'', ''b''])], dt = 1 / 2\<rparr> ''b'' = Inr (3 / 2)
   \<and> calc_modephase_time \<lparr>phases = [(''a'', (0, 2)), (''b'', (5, 6))],
         modephases = [(''m'', [''a'', ''b''])], dt = 1 / 2\<rparr> ''m'' = Inr 4"
  using calc_modephase_time_sum
    [of "\<lparr>phases = [(''a'', (0, 2)), (''b'', (5, 6))],
         modephases = [(''m'', [''a'', ''b''])], dt = 1 / 2\<rparr>" "''m''" "[''a'', ''b'']"
        "\<lambda>ph. if ph = ''a'' then 5 / 2 else 3 / 2"]
  by (simp add: calc_phase_time_def dict_get_def)

section \<open>Properties of sample counting\<close>

lemma dict_set_increment:
  "distinct (map fst acc) \<Longrightarrow> map_of acc ph = Some n \<Longrightarrow>
     dict_set acc ph (n + 1) = map (\<lambda>(k, v). (k, if k = ph then v + 1 else v)) acc"
proof (induction acc)
  case Nil
  then show ?case by simp
next
  case (Cons a acc)
  obtain k v where a: "a = (k, v)" by (cases a)
  show ?case
  proof (cases "k = ph")
    case True
    with Cons.prems a have "n = v" and "ph \<notin> fst ` set acc" by auto
    then have "map (\<lambda>(k, v). (k, if k = ph then v + 1 else v)) acc = acc"
      by (induction acc) auto
    with True a \<open>n = v\<close> show ?thesis by simp
  next
    case False
    with Cons a show ?thesis by simp
  qed
qed

lemma samples_loop_step:
  "samples_loop pm (t # rest) acc =
     (case find_base_phase pm t of
        Inl err \<Rightarrow> Inl err
      | Inr ph \<Rightarrow>
          (case dict_get acc ph of
             Inl err \<Rightarrow> Inl err
           | Inr n \<Rightarrow> samples_loop pm rest (dict_set acc ph (n + 1))))"
  by (simp add: find_base_phase_def split: sum.splits)

lemma samples_loop_counts:
  assumes "distinct (map fst acc)"
    and "\<forall>t\<in>set ts. \<forall>k. (find_base_phase pm t = Inr k) = P k t"
    and "\<forall>t\<in>set ts. \<exists>k\<in>fst ` set acc. P k t"
  shows "samples_loop pm ts acc =
           Inr (map (\<lambda>(k, v). (k, v + int (length (filter (P k) ts)))) acc)"
  using assms
proof (induction ts arbitrary: acc)
  case Nil
  then show ?case by (simp add: case_prod_unfold)
next
  case (Cons t ts)
  from Cons.prems(3) obtain ph where ph: "ph \<in> fst ` set acc" "P ph t"
    by auto
  have bp: "find_base_phase pm t = Inr ph"
    using Cons.prems(2) ph(2) by simp
  have only: "P k t = (k = ph)" for k
    using Cons.prems(2) bp by (metis Inr_inject list.set_intros(1))
  from ph(1) obtain n where g: "map_of acc ph = Some n"
    by (metis domD dom_map_of_conv_image_fst)
  let ?acc' = "map (\<lambda>(k, v). (k, if k = ph then v + 1 else v)) acc"
  have upd: "dict_set acc ph (n + 1) = ?acc'"
    using Cons.prems(1) g by (rule dict_set_increment)
  have keys: "map fst ?acc' = map fst acc"
    by (simp add: case_prod_unfold comp_def)
  have d': "distinct (map fst ?acc')"
    using keys Cons.prems(1) by metis
  have cls: "\<forall>t\<in>set ts. \<forall>k. (find_base_phase pm t = Inr k) = P k t"
    using Cons.prems(2) by simp
  have ex: "\<forall>t\<in>set ts. \<exists>k\<in>fst ` set ?acc'. P k t"
    using Cons.prems(3) keys by (metis list.set_intros(2) set_map)
  have "samples_loop pm (t # ts) acc = samples_loop pm ts ?acc'"
    using bp g upd unfolding samples_loop_step by (simp add: dict_get_def)
  also have "\<dots> = Inr (map (\<lambda>(k, v). (k, v + int (length (filter (P k) ts)))) ?acc')"
    using d' cls ex by (rule Cons.IH)
  also have "map (\<lambda>(k, v). (k, v + int (length (filter (P k) ts)))) ?acc'
      = map (\<lambda>(k, v). (k, v + int (length (filter (P k) (t # ts))))) acc"
    by (simp add: case_prod_unfold only)
  finally show ?case .
qed

lemma time_in_phase_declared:
  "time_in_phase pm ph t \<Longrightarrow> ph \<in> fst ` set (phases pm)"
  by (auto simp: time_in_phase_def dom_map_of_conv_image_fst [symmetric] split: option.splits)

lemma time_in_modephase_declared:
  "time_in_modephase pm m t \<Longrightarrow> m \<in> fst ` set (modephases pm)"
  by (auto simp: time_in_modephase_def dom_map_of_conv_image_fst [symmetric] split: option.splits)

lemma find_phase_time_in_phase:
  assumes "distinct (map fst (phases pm))" and "\<exists>!ph. time_in_phase pm ph t"
  shows "(find_phase pm t (dt pm) = Inr k) = time_in_phase pm k t"
proof -
  have sound: "time_in_phase pm p t" if "find_phase pm t (dt pm) = Inr p" for p
  proof -
    from that have "find_phase_loop (phases pm) t (dt pm) = Some p"
      by (simp add: find_phase_def split: option.splits)
    then obtain s e where "(p, (s, e)) \<in> set (phases pm)" "s \<le> t" "t < e + dt pm"
      using find_phase_loop_Some by blast
    then show ?thesis
      using assms(1) by (simp add: time_in_phase_def)
  qed
  from assms(2) obtain ph where ph: "time_in_phase pm ph t"
    by blast
  then obtain iv where iv: "map_of (phases pm) ph = Some iv" "fst iv \<le> t" "t < snd iv + dt pm"
    by (auto simp: time_in_phase_def split: option.splits)
  then have "(ph, (fst iv, snd iv)) \<in> set (phases pm)"
    by (simp add: map_of_SomeD)
  with iv(2,3) have "find_phase_loop (phases pm) t (dt pm) \<noteq> None"
    unfolding find_phase_loop_None by blast
  then obtain p where p: "find_phase pm t (dt pm) = Inr p"
    by (auto simp: find_phase_def)
  show ?thesis
  proof
    assume "find_phase pm t (dt pm) = Inr k"
    then show "time_in_phase pm k t" by (rule sound)
  next
    assume "time_in_phase pm k t"
    moreover have "time_in_phase pm p t" using p by (rule sound)
    ultimately have "p = k" using assms(2) by blast
    with p show "find_phase pm t (dt pm) = Inr k" by simp
  qed
qed

lemma find_modephase_loop_Some:
  "find_modephase_loop mph ph = Some m \<Longrightarrow> \<exists>phs. (m, phs) \<in> set mph \<and> ph \<in> set phs"
  by (induction mph ph rule: find_modephase_loop.induct) (auto split: if_splits)

lemma find_modephase_loop_None:
  "(find_modephase_loop mph ph = None) = (\<forall>(m, phs) \<in> set mph. ph \<notin> set phs)"
  by (induction mph ph rule: find_modephase_loop.induct) (auto split: if_splits)

lemma find_modephase_time_in_modephase:
  assumes "distinct (map fst (modephases pm))"
    and ph: "time_in_phase pm ph t" and uniq: "\<exists>!ph. time_in_phase pm ph t"
    and "\<exists>!m. time_in_modephase pm m t"
  shows "(find_modephase pm ph = Inr k) = time_in_modephase pm k t"
proof -
  have sound: "time_in_modephase pm m t" if "find_modephase pm ph = Inr m" for m
  proof -
    from that have "find_modephase_loop (modephases pm) ph = Some m"
      by (simp add: find_modephase_def split: option.splits)
    then obtain phs where "(m, phs) \<in> set (modephases pm)" "ph \<in> set phs"
      using find_modephase_loop_Some by blast
    then show ?thesis
      using assms(1) ph by (auto simp: time_in_modephase_def list_ex_iff)
  qed
  from assms(4) obtain m0 where "time_in_modephase pm m0 t"
    by blast
  then obtain phs0 ph' where m0: "map_of (modephases pm) m0 = Some phs0" "ph' \<in> set phs0"
      "time_in_phase pm ph' t"
    by (auto simp: time_in_modephase_def list_ex_iff split: option.splits)
  from m0(3) ph uniq have "ph' = ph" by blast
  with m0 have "(m0, phs0) \<in> set (modephases pm)" "ph \<in> set phs0"
    by (simp_all add: map_of_SomeD)
  then have "find_modephase_loop (modephases pm) ph \<noteq> None"
    unfolding find_modephase_loop_None by blast
  then obtain m where m: "find_modephase pm ph = Inr m"
    by (auto simp: find_modephase_def)
  show ?thesis
  proof
    assume "find_modephase pm ph = Inr k"
    then show "time_in_modephase pm k t" by (rule sound)
  next
    assume "time_in_modephase pm k t"
    moreover have "time_in_modephase pm m t" using m by (rule sound)
    ultimately have "m = k" using assms(4) by blast
    with m show "find_modephase pm ph = Inr k" by simp
  qed
qed

text \<open>
  C5 (as amended): for the phases \<open>on = [0, 3]\<close>, \<open>off = [4, 5]\<close> and no modephases,
  \<open>calc_samples_in_phases(1, 2, 3, 4, 5)\<close> is \<open>{on: 3, off: 2}\<close>; with the modephases
  \<open>{oper: {on, off}}\<close> it is \<open>{oper: 5}\<close>. In general, for a map with \<open>dt = 1.0\<close> and
  distinct names, when every given time falls in exactly one phase
  (\<open>start \<le> t < end + dt\<close>) and, with a grouping, in exactly one modephase, the result
  has one entry per modephase (per phase without a grouping), in declaration order,
  holding the number of given times that fall in it.
\<close>

theorem calc_samples_in_phases_counts_times:
  "(dt pm = 1 \<and> distinct (map fst (phases pm)) \<and> modephases pm = []
      \<and> (\<forall>t\<in>set ts. \<exists>!ph. time_in_phase pm ph t)
     \<longrightarrow> calc_samples_in_phases pm ts =
           Inr (map (\<lambda>ph. (ph, int (length (filter (time_in_phase pm ph) ts))))
                  (map fst (phases pm))))
   \<and> (dt pm = 1 \<and> distinct (map fst (phases pm)) \<and> modephases pm \<noteq> []
        \<and> distinct (map fst (modephases pm))
        \<and> (\<forall>t\<in>set ts. \<exists>!ph. time_in_phase pm ph t)
        \<and> (\<forall>t\<in>set ts. \<exists>!m. time_in_modephase pm m t)
     \<longrightarrow> calc_samples_in_phases pm ts =
           Inr (map (\<lambda>m. (m, int (length (filter (time_in_modephase pm m) ts))))
                  (map fst (modephases pm))))
   \<and> calc_samples_in_phases
        \<lparr>phases = [(''on'', (0, 3)), (''off'', (4, 5))], modephases = [], dt = 1\<rparr>
        [1, 2, 3, 4, 5] = Inr [(''on'', 3), (''off'', 2)]
   \<and> calc_samples_in_phases
        \<lparr>phases = [(''on'', (0, 3)), (''off'', (4, 5))],
         modephases = [(''oper'', [''on'', ''off''])], dt = 1\<rparr>
        [1, 2, 3, 4, 5] = Inr [(''oper'', 5)]"
  (is "(?ungrouped \<longrightarrow> ?per_phase) \<and> (?grouped \<longrightarrow> ?per_mode) \<and> ?ex1 \<and> ?ex2")
proof -
  have p1: "?ungrouped \<longrightarrow> ?per_phase"
  proof
    assume a: ?ungrouped
    let ?acc = "map (\<lambda>ph. (ph, 0 :: int)) (map fst (phases pm))"
    have d: "distinct (map fst ?acc)"
      using a by (simp add: comp_def)
    have cls: "\<forall>t\<in>set ts. \<forall>k. (find_base_phase pm t = Inr k) = time_in_phase pm k t"
    proof (intro ballI allI)
      fix t k assume "t \<in> set ts"
      with a have "(find_phase pm t (dt pm) = Inr k) = time_in_phase pm k t"
        by (intro find_phase_time_in_phase) simp_all
      moreover have "find_base_phase pm t = find_phase pm t (dt pm)"
        using a by (simp add: find_base_phase_def split: sum.splits)
      ultimately show "(find_base_phase pm t = Inr k) = time_in_phase pm k t"
        by simp
    qed
    have ex: "\<forall>t\<in>set ts. \<exists>k\<in>fst ` set ?acc. time_in_phase pm k t"
    proof
      fix t assume "t \<in> set ts"
      with a obtain ph where "time_in_phase pm ph t" by blast
      moreover from this have "ph \<in> fst ` set ?acc"
        using time_in_phase_declared [of pm ph t] by (simp add: image_image)
      ultimately show "\<exists>k\<in>fst ` set ?acc. time_in_phase pm k t" by blast
    qed
    have "samples_loop pm ts ?acc =
        Inr (map (\<lambda>(k, v). (k, v + int (length (filter (time_in_phase pm k) ts)))) ?acc)"
      using d cls ex by (rule samples_loop_counts)
    then show ?per_phase
      using a by (simp add: calc_samples_in_phases_def comp_def)
  qed
  have p2: "?grouped \<longrightarrow> ?per_mode"
  proof
    assume a: ?grouped
    let ?acc = "map (\<lambda>m. (m, 0 :: int)) (map fst (modephases pm))"
    have d: "distinct (map fst ?acc)"
      using a by (simp add: comp_def)
    have cls: "\<forall>t\<in>set ts. \<forall>k. (find_base_phase pm t = Inr k) = time_in_modephase pm k t"
    proof (intro ballI allI)
      fix t k assume t: "t \<in> set ts"
      with a have uniq: "\<exists>!ph. time_in_phase pm ph t" and uniqm: "\<exists>!m. time_in_modephase pm m t"
        by simp_all
      from uniq obtain ph where ph: "time_in_phase pm ph t" by blast
      have "(find_phase pm t (dt pm) = Inr ph) = time_in_phase pm ph t"
        using a uniq by (intro find_phase_time_in_phase) simp_all
      with ph a have fp: "find_phase pm t 1 = Inr ph"
        by simp
      have "(find_modephase pm ph = Inr k) = time_in_modephase pm k t"
        using a ph uniq uniqm by (intro find_modephase_time_in_modephase) simp_all
      moreover have "find_base_phase pm t = find_modephase pm ph"
        using a fp by (simp add: find_base_phase_def)
      ultimately show "(find_base_phase pm t = Inr k) = time_in_modephase pm k t"
        by simp
    qed
    have ex: "\<forall>t\<in>set ts. \<exists>k\<in>fst ` set ?acc. time_in_modephase pm k t"
    proof
      fix t assume "t \<in> set ts"
      with a obtain m where "time_in_modephase pm m t" by blast
      moreover from this have "m \<in> fst ` set ?acc"
        using time_in_modephase_declared [of pm m t] by (simp add: image_image)
      ultimately show "\<exists>k\<in>fst ` set ?acc. time_in_modephase pm k t" by blast
    qed
    have "samples_loop pm ts ?acc =
        Inr (map (\<lambda>(k, v). (k, v + int (length (filter (time_in_modephase pm k) ts)))) ?acc)"
      using d cls ex by (rule samples_loop_counts)
    then show ?per_mode
      using a by (simp add: calc_samples_in_phases_def comp_def)
  qed
  have ex1: ?ex1
    by (simp add: calc_samples_in_phases_def find_phase_def dict_get_def)
  have ex2: ?ex2
    by (simp add: calc_samples_in_phases_def find_phase_def find_modephase_def dict_get_def)
  show ?thesis
    by (rule conjI [OF p1 conjI [OF p2 conjI [OF ex1 ex2]]])
qed

theorem calc_samples_in_phases_counts_times_witness:
  "dt \<lparr>phases = [(''a'', (0, 1)), (''b'', (2, 6)), (''c'', (8, 9))],
        modephases = [(''m1'', [''a'', ''c'']), (''m2'', [''b''])], dt = 1\<rparr> = 1
   \<and> (\<exists>!ph. time_in_phase \<lparr>phases = [(''a'', (0, 1)), (''b'', (2, 6)), (''c'', (8, 9))],
        modephases = [(''m1'', [''a'', ''c'']), (''m2'', [''b''])], dt = 1\<rparr> ph 9)
   \<and> (\<exists>!m. time_in_modephase \<lparr>phases = [(''a'', (0, 1)), (''b'', (2, 6)), (''c'', (8, 9))],
        modephases = [(''m1'', [''a'', ''c'']), (''m2'', [''b''])], dt = 1\<rparr> m 9)
   \<and> calc_samples_in_phases \<lparr>phases = [(''a'', (0, 1)), (''b'', (2, 6)), (''c'', (8, 9))],
        modephases = [(''m1'', [''a'', ''c'']), (''m2'', [''b''])], dt = 1\<rparr> [0, 5, 9]
       = Inr [(''m1'', 2), (''m2'', 1)]
   \<and> calc_samples_in_phases \<lparr>phases = [(''a'', (0, 1)), (''b'', (2, 6)), (''c'', (8, 9))],
        modephases = [], dt = 1\<rparr> [0, 5, 9]
       = Inr [(''a'', 1), (''b'', 1), (''c'', 1)]"
proof -
  let ?phs = "[(''a'', (0, 1)), (''b'', (2, 6)), (''c'', (8 :: real, 9 :: real))]"
  let ?pm = "\<lparr>phases = ?phs, modephases = [(''m1'', [''a'', ''c'']), (''m2'', [''b''])], dt = 1\<rparr>"
  let ?pu = "\<lparr>phases = ?phs, modephases = [], dt = 1\<rparr>"
  have ph0: "time_in_phase ?pm ph 0 = (ph = ''a'')" for ph
    by (simp add: time_in_phase_def)
  have ph5: "time_in_phase ?pm ph 5 = (ph = ''b'')" for ph
    by (simp add: time_in_phase_def)
  have ph9: "time_in_phase ?pm ph 9 = (ph = ''c'')" for ph
    by (simp add: time_in_phase_def)
  have pu: "time_in_phase ?pu ph t = time_in_phase ?pm ph t" for ph t
    by (simp add: time_in_phase_def)
  have m0: "time_in_modephase ?pm m 0 = (m = ''m1'')" for m
    by (simp add: time_in_modephase_def ph0)
  have m5: "time_in_modephase ?pm m 5 = (m = ''m2'')" for m
    by (simp add: time_in_modephase_def ph5)
  have m9: "time_in_modephase ?pm m 9 = (m = ''m1'')" for m
    by (simp add: time_in_modephase_def ph9)
  have grouped: "dt ?pm = 1 \<and> distinct (map fst (phases ?pm)) \<and> modephases ?pm \<noteq> []
        \<and> distinct (map fst (modephases ?pm))
        \<and> (\<forall>t\<in>set [0, 5, 9]. \<exists>!ph. time_in_phase ?pm ph t)
        \<and> (\<forall>t\<in>set [0, 5, 9]. \<exists>!m. time_in_modephase ?pm m t)"
    by (simp add: ph0 ph5 ph9 m0 m5 m9)
  have "calc_samples_in_phases ?pm [0, 5, 9] =
           Inr (map (\<lambda>m. (m, int (length (filter (time_in_modephase ?pm m) [0, 5, 9]))))
                  (map fst (modephases ?pm)))"
    by (rule calc_samples_in_phases_counts_times
          [where pm = ?pm and ts = "[0, 5, 9]", THEN conjunct2, THEN conjunct1, THEN mp, OF grouped])
  then have c1: "calc_samples_in_phases ?pm [0, 5, 9] = Inr [(''m1'', 2), (''m2'', 1)]"
    by (simp add: m0 m5 m9)
  have ungrouped: "dt ?pu = 1 \<and> distinct (map fst (phases ?pu)) \<and> modephases ?pu = []
        \<and> (\<forall>t\<in>set [0, 5, 9]. \<exists>!ph. time_in_phase ?pu ph t)"
    by (simp add: pu ph0 ph5 ph9)
  have "calc_samples_in_phases ?pu [0, 5, 9] =
           Inr (map (\<lambda>ph. (ph, int (length (filter (time_in_phase ?pu ph) [0, 5, 9]))))
                  (map fst (phases ?pu)))"
    by (rule calc_samples_in_phases_counts_times
          [where pm = ?pu and ts = "[0, 5, 9]", THEN conjunct1, THEN mp, OF ungrouped])
  then have c2: "calc_samples_in_phases ?pu [0, 5, 9] = Inr [(''a'', 1), (''b'', 1), (''c'', 1)]"
    by (simp add: pu ph0 ph5 ph9)
  show ?thesis
    using c1 c2 by (simp add: ph9 m9)
qed

text \<open>
  C5 as stated fails: a time that falls in two phases is counted for the first declared
  one only, and a time that falls in no phase raises. For \<open>a = [0, 5]\<close>, \<open>b = [3, 8]\<close> the
  time \<open>4\<close> lies in \<open>b\<close>, and \<open>calc_samples_in_phases(4)\<close> is \<open>{a: 1, b: 0}\<close>; for
  \<open>on = [0, 3]\<close>, \<open>off = [4, 5]\<close>, \<open>calc_samples_in_phases(7)\<close> raises.
\<close>

theorem calc_samples_in_phases_counterexample:
  "calc_samples_in_phases \<lparr>phases = [(''a'', (0, 5)), (''b'', (3, 8))], modephases = [], dt = 1\<rparr> [4]
      = Inr [(''a'', 1), (''b'', 0)]
   \<and> (3 :: real) \<le> 4 \<and> (4 :: real) \<le> 8
   \<and> calc_samples_in_phases
        \<lparr>phases = [(''on'', (0, 3)), (''off'', (4, 5))], modephases = [], dt = 1\<rparr> [7]
      = Inl (TimeNotInPhases 7)"
  by (simp add: calc_samples_in_phases_def find_phase_def dict_get_def)

section \<open>Properties of sample instants\<close>

lemma nat_less_ceiling: "(k < nat \<lceil>x :: real\<rceil>) = (real k < x)"
proof -
  have "(k < nat \<lceil>x\<rceil>) = (int k < \<lceil>x\<rceil>)"
    by (rule zless_nat_eq_int_zless)
  also have "\<dots> = (real_of_int (int k) < x)"
    by (rule less_ceiling_iff)
  finally show ?thesis by simp
qed

lemma arange_values_set:
  assumes "0 < step"
  shows "set (arange_values a stop step) = {a + real k * step | k. a + real k * step < stop}"
proof -
  have "(real k < (stop - a) / step) = (a + real k * step < stop)" for k
    using assms by (simp add: pos_less_divide_eq algebra_simps)
  then have "(k < nat \<lceil>(stop - a) / step\<rceil>) = (a + real k * step < stop)" for k
    by (simp add: nat_less_ceiling)
  then show ?thesis
    by (auto simp: arange_values_def)
qed

lemma arange_values_strict_sorted:
  assumes "0 < step"
  shows "sorted_wrt (<) (arange_values a stop step)"
proof -
  have "sorted_wrt (\<lambda>j k. a + real j * step < a + real k * step) [0 ..< nat \<lceil>(stop - a) / step\<rceil>]"
    using assms by (intro sorted_wrt_mono_rel [OF _ sorted_wrt_upt]) simp
  then show ?thesis
    by (simp add: arange_values_def sorted_wrt_map)
qed

lemma arange_values_aligned:
  assumes "0 < step"
  shows "arange_values a (a + real n * step + step) step
           = map (\<lambda>k. a + real k * step) [0 ..< Suc n]"
proof -
  have "(a + real n * step + step - a) / step = real n + 1"
    using assms by (simp add: field_simps)
  then have "nat \<lceil>(a + real n * step + step - a) / step\<rceil> = Suc n"
    by simp
  then show ?thesis
    unfolding arange_values_def by simp
qed

lemma sort_remdups_strict_sorted:
  "sorted_wrt (<) (xs :: real list) \<Longrightarrow> sort (remdups xs) = xs"
  by (simp add: strict_sorted_iff distinct_remdups_id sorted_sort_id)

lemma gen_interval_times_pos:
  "0 < d \<Longrightarrow> gen_interval_times np iv d = Inr (np (fst iv) (snd iv + d) d)"
  by (simp add: gen_interval_times_def)

lemma get_phase_times_phase:
  assumes "0 < dt pm" "map_of (modephases pm) nm = None" "map_of (phases pm) nm = Some (s, e)"
  shows "get_phase_times arange_values pm nm = Inr (arange_values s (e + dt pm) (dt pm))"
  using assms
  by (simp add: get_phase_times_def gen_interval_times_pos sort_remdups_strict_sorted
      arange_values_strict_sorted)

lemma get_phase_times_modephase:
  assumes "0 < dt pm" "map_of (modephases pm) nm = Some phs" "phs \<noteq> []"
    and "\<forall>ph\<in>set phs. map_of (phases pm) ph = Some (I ph)"
  shows "get_phase_times arange_values pm nm =
     Inr (sort (remdups (concat
       (map (\<lambda>ph. arange_values (fst (I ph)) (snd (I ph) + dt pm) (dt pm)) phs))))"
proof -
  have "comprehension (dict_get (phases pm)) phs = Inr (map I phs)"
    using assms(4) by (intro comprehension_Inr) (simp add: dict_get_def)
  moreover have "comprehension (\<lambda>i. gen_interval_times arange_values i (dt pm)) (map I phs)
      = Inr (map (\<lambda>i. arange_values (fst i) (snd i + dt pm) (dt pm)) (map I phs))"
    using assms(1) by (intro comprehension_Inr) (simp add: gen_interval_times_pos)
  ultimately show ?thesis
    using assms(2,3) by (simp add: get_phase_times_def comp_def)
qed

lemma map_of_dict_set: "map_of (dict_set d k v) = (map_of d)(k \<mapsto> v)"
  by (induction d k v rule: dict_set.induct) auto

lemma keys_dict_set: "fst ` set (dict_set d k v) = insert k (fst ` set d)"
  by (induction d k v rule: dict_set.induct) auto

lemma distinct_dict_set: "distinct (map fst d) \<Longrightarrow> distinct (map fst (dict_set d k v))"
  by (induction d k v rule: dict_set.induct) (auto simp: keys_dict_set)

lemma sampletimes_loop_result:
  "\<forall>n\<in>set names. get_phase_times np pm n = Inr (T n) \<Longrightarrow> distinct (map fst acc) \<Longrightarrow>
   \<exists>res. sampletimes_loop np pm names acc = Inr res
     \<and> fst ` set res = fst ` set acc \<union> set names
     \<and> distinct (map fst res)
     \<and> (\<forall>n. map_of res n = (if n \<in> set names then Some (T n) else map_of acc n))"
proof (induction names arbitrary: acc)
  case Nil
  then show ?case by simp
next
  case (Cons nm names)
  have g: "get_phase_times np pm nm = Inr (T nm)"
    using Cons.prems(1) by simp
  have "\<forall>n\<in>set names. get_phase_times np pm n = Inr (T n)"
    using Cons.prems(1) by simp
  moreover have "distinct (map fst (dict_set acc nm (T nm)))"
    using Cons.prems(2) by (rule distinct_dict_set)
  ultimately obtain res where
    r: "sampletimes_loop np pm names (dict_set acc nm (T nm)) = Inr res"
       "fst ` set res = fst ` set (dict_set acc nm (T nm)) \<union> set names"
       "distinct (map fst res)"
       "\<forall>n. map_of res n = (if n \<in> set names then Some (T n)
                              else map_of (dict_set acc nm (T nm)) n)"
    using Cons.IH [of "dict_set acc nm (T nm)"] by blast
  have "sampletimes_loop np pm (nm # names) acc = Inr res"
    using g r(1) by simp
  moreover have "fst ` set res = fst ` set acc \<union> set (nm # names)"
    using r(2) by (simp add: keys_dict_set)
  moreover have "\<forall>n. map_of res n = (if n \<in> set (nm # names) then Some (T n) else map_of acc n)"
    using r(4) by (simp add: map_of_dict_set)
  ultimately show ?case
    using r(3) by blast
qed

text \<open>
  What \<open>get_phase_times\<close> and \<open>get_sample_times\<close> return when \<open>numpy.arange\<close> returns the
  result it documents and the timestep is positive: the times of a phase are the
  instants \<open>start + k * dt\<close> below \<open>end + dt\<close>, which are \<open>start, start + dt, \<dots>, end\<close> when
  \<open>end = start + n * dt\<close>; the times of a modephase are their sorted union; each
  requested name is mapped to its times, and no name stands for all modephases, or
  for all phases when there is no grouping.
\<close>

lemma get_sample_times_exact_arange:
  "(0 < dt pm \<and> map_of (modephases pm) nm = None \<and> map_of (phases pm) nm = Some (s, e) \<longrightarrow>
      (\<exists>ts. get_phase_times arange_values pm nm = Inr ts \<and> sorted ts \<and> distinct ts
         \<and> set ts = {s + real k * dt pm | k. s + real k * dt pm < e + dt pm}
         \<and> (\<forall>n. e = s + real n * dt pm \<longrightarrow> ts = map (\<lambda>k. s + real k * dt pm) [0 ..< Suc n])))
   \<and> (0 < dt pm \<and> map_of (modephases pm) nm = Some phs \<and> phs \<noteq> []
        \<and> (\<forall>ph\<in>set phs. ph \<in> fst ` set (phases pm)) \<longrightarrow>
      (\<exists>ts. get_phase_times arange_values pm nm = Inr ts \<and> sorted ts \<and> distinct ts
         \<and> set ts = {s + real k * dt pm | ph s e k.
                       ph \<in> set phs \<and> map_of (phases pm) ph = Some (s, e)
                       \<and> s + real k * dt pm < e + dt pm}))
   \<and> (names \<noteq> [] \<and> (\<forall>n\<in>set names. get_phase_times arange_values pm n = Inr (T n)) \<longrightarrow>
      (\<exists>res. get_sample_times arange_values pm names = Inr res \<and> fst ` set res = set names
         \<and> distinct (map fst res) \<and> (\<forall>n\<in>set names. map_of res n = Some (T n))))
   \<and> get_sample_times arange_values pm [] =
        get_sample_times arange_values pm (if modephases pm \<noteq> [] then map fst (modephases pm)
                             else map fst (phases pm))
   \<and> get_sample_times arange_values \<lparr>phases = [(''on1'', (0, 4)), (''on2'', (5, 6))],
                        modephases = [(''on'', [''on1'', ''on2''])], dt = 1\<rparr> [''on1'']
        = Inr [(''on1'', [0, 1, 2, 3, 4])]
   \<and> get_sample_times arange_values \<lparr>phases = [(''on1'', (0, 4)), (''on2'', (5, 6))],
                        modephases = [(''on'', [''on1'', ''on2''])], dt = 1\<rparr> [''on'']
        = Inr [(''on'', [0, 1, 2, 3, 4, 5, 6])]"
  (is "(?phase \<longrightarrow> ?phase_ts) \<and> (?mode \<longrightarrow> ?mode_ts) \<and> (?req \<longrightarrow> ?dict) \<and> ?default
        \<and> ?ex1 \<and> ?ex2")
proof -
  have p1: "?phase \<longrightarrow> ?phase_ts"
  proof
    assume a: ?phase
    let ?ts = "arange_values s (e + dt pm) (dt pm)"
    have "get_phase_times arange_values pm nm = Inr ?ts"
      using a by (simp add: get_phase_times_phase)
    moreover have "sorted ?ts \<and> distinct ?ts"
      using a arange_values_strict_sorted [of "dt pm" s "e + dt pm"]
      by (simp add: strict_sorted_iff)
    moreover have "set ?ts = {s + real k * dt pm | k. s + real k * dt pm < e + dt pm}"
      using a by (simp add: arange_values_set)
    moreover have "\<forall>n. e = s + real n * dt pm \<longrightarrow> ?ts = map (\<lambda>k. s + real k * dt pm) [0 ..< Suc n]"
      using a arange_values_aligned [of "dt pm" s] by blast
    ultimately show ?phase_ts by blast
  qed
  have p2: "?mode \<longrightarrow> ?mode_ts"
  proof
    assume a: ?mode
    define I where "I ph = the (map_of (phases pm) ph)" for ph
    have I: "\<forall>ph\<in>set phs. map_of (phases pm) ph = Some (I ph)"
    proof
      fix ph assume "ph \<in> set phs"
      with a have "ph \<in> fst ` set (phases pm)" by blast
      then have "map_of (phases pm) ph \<noteq> None"
        by (simp add: map_of_eq_None_iff)
      then show "map_of (phases pm) ph = Some (I ph)"
        by (auto simp: I_def)
    qed
    let ?ts = "sort (remdups (concat
       (map (\<lambda>ph. arange_values (fst (I ph)) (snd (I ph) + dt pm) (dt pm)) phs)))"
    have "get_phase_times arange_values pm nm = Inr ?ts"
      using a I by (intro get_phase_times_modephase) simp_all
    moreover have "sorted ?ts \<and> distinct ?ts"
      by simp
    moreover have "set ?ts = {s + real k * dt pm | ph s e k.
                       ph \<in> set phs \<and> map_of (phases pm) ph = Some (s, e)
                       \<and> s + real k * dt pm < e + dt pm}"
    proof -
      have "set ?ts = (\<Union>ph\<in>set phs.
              {fst (I ph) + real k * dt pm | k. fst (I ph) + real k * dt pm < snd (I ph) + dt pm})"
        using a by (simp add: arange_values_set)
      also have "\<dots> = {s + real k * dt pm | ph s e k.
                       ph \<in> set phs \<and> map_of (phases pm) ph = Some (s, e)
                       \<and> s + real k * dt pm < e + dt pm}"
        using I by (auto; force)
      finally show ?thesis .
    qed
    ultimately show ?mode_ts by blast
  qed
  have p3: "?req \<longrightarrow> ?dict"
  proof
    assume a: ?req
    then have "default_phases_to_sample pm names = names"
      by (simp add: default_phases_to_sample_def)
    moreover obtain res where "sampletimes_loop arange_values pm names [] = Inr res"
       "fst ` set res = fst ` set ([] :: (string \<times> real list) list) \<union> set names"
       "distinct (map fst res)"
       "\<forall>n. map_of res n = (if n \<in> set names then Some (T n) else map_of [] n)"
      using a sampletimes_loop_result [of names arange_values pm T "[]"] by auto
    ultimately show ?dict
      by (auto simp: get_sample_times_def)
  qed
  have p4: ?default
    by (auto simp: get_sample_times_def default_phases_to_sample_def)
  have ex1: ?ex1
    by code_simp
  have ex2: ?ex2
    by code_simp
  show ?thesis
    by (rule conjI [OF p1 conjI [OF p2 conjI [OF p3 conjI [OF p4 conjI [OF ex1 ex2]]]]])
qed

text \<open>
  C6: the times of a phase are not always times of the phase. For \<open>a = [0, 5]\<close> and
  \<open>dt = 2\<close>, \<^verbatim>\<open>get_sample_times('a')\<close> is \<open>{a: [0, 2, 4, 6]}\<close>, and the instant \<open>6\<close> lies beyond
  the end \<open>5\<close> of the phase. The documented example \<open>on1 = [0, 4]\<close>, \<open>dt = 1.0\<close> gives
  \<open>[0, 1, 2, 3, 4]\<close>.
\<close>

theorem get_sample_times_beyond_phase_end:
  "get_sample_times arange_values \<lparr>phases = [(''a'', (0, 5))], modephases = [], dt = 2\<rparr> [''a'']
      = Inr [(''a'', [0, 2, 4, 6])]
   \<and> (5 :: real) < 6
   \<and> get_sample_times arange_values
        \<lparr>phases = [(''on1'', (0, 4)), (''on2'', (5, 6))],
         modephases = [(''on'', [''on1'', ''on2''])], dt = 1\<rparr> [''on1'']
      = Inr [(''on1'', [0, 1, 2, 3, 4])]"
  by code_simp

section \<open>Properties of the overlap of intervals\<close>

lemma possible_times_ok:
  assumes "possible_times np entry \<noteq> Inl IndexError"
  shows "\<exists>ts. possible_times np entry = Inr ts \<and> distinct ts \<and> set ts = entry_times np entry"
proof (cases entry)
  case (Single k iv)
  with assms show ?thesis
    by (cases k) (simp_all add: possible_times_def entry_times_def)
next
  case (Multi ivs)
  with assms obtain iv rest where "ivs = iv # rest"
    by (cases ivs) (auto simp: possible_times_def)
  with Multi show ?thesis by (simp add: possible_times_def entry_times_def)
qed

lemma overlap_n_loop_later:
  "0 < i \<Longrightarrow> \<forall>entry\<in>set es. possible_times np entry \<noteq> Inl IndexError \<Longrightarrow>
   overlap_n_loop np i es joined cnts =
     Inr (filter (\<lambda>t. \<forall>entry\<in>set es. t \<in> entry_times np entry) joined,
          cnts @ map (\<lambda>entry. card (entry_times np entry)) es)"
proof (induction es arbitrary: i joined cnts)
  case Nil
  then show ?case by simp
next
  case (Cons entry es)
  from Cons.prems(2) obtain ts where
    ts: "possible_times np entry = Inr ts" "distinct ts" "set ts = entry_times np entry"
    using possible_times_ok [of np entry] by auto
  have len: "length ts = card (entry_times np entry)"
    using ts by (metis distinct_card)
  have "overlap_n_loop np i (entry # es) joined cnts =
          overlap_n_loop np (i + 1) es (filter (\<lambda>t. t \<in> set ts) joined) (cnts @ [length ts])"
    using ts(1) Cons.prems(1) by simp
  also have "\<dots> = Inr (filter (\<lambda>t. \<forall>entry\<in>set es. t \<in> entry_times np entry)
                          (filter (\<lambda>t. t \<in> set ts) joined),
                        (cnts @ [length ts]) @ map (\<lambda>entry. card (entry_times np entry)) es)"
    using Cons.prems(2) by (intro Cons.IH) simp_all
  also have "filter (\<lambda>t. \<forall>entry\<in>set es. t \<in> entry_times np entry)
               (filter (\<lambda>t. t \<in> set ts) joined)
      = filter (\<lambda>t. \<forall>e\<in>set (entry # es). t \<in> entry_times np e) joined"
    using ts(3) by (auto intro: filter_cong)
  finally show ?case
    using len by simp
qed

lemma overlap_n_loop_first:
  assumes "intervals \<noteq> []"
    and "\<forall>entry\<in>set intervals. possible_times np entry \<noteq> Inl IndexError"
  shows "\<exists>joined. overlap_n_loop np 0 intervals [] [] =
            Inr (joined, map (\<lambda>entry. card (entry_times np entry)) intervals)
          \<and> distinct joined \<and> set joined = (\<Inter>entry\<in>set intervals. entry_times np entry)"
proof -
  from assms(1) obtain entry es where iv: "intervals = entry # es"
    by (cases intervals) auto
  from assms(2) iv obtain ts where
    ts: "possible_times np entry = Inr ts" "distinct ts" "set ts = entry_times np entry"
    using possible_times_ok [of np entry] by auto
  have len: "length ts = card (entry_times np entry)"
    using ts by (metis distinct_card)
  have "overlap_n_loop np 0 intervals [] [] = overlap_n_loop np 1 es ts [length ts]"
    using iv ts(1) by simp
  also have "\<dots> = Inr (filter (\<lambda>t. \<forall>entry\<in>set es. t \<in> entry_times np entry) ts,
                        [length ts] @ map (\<lambda>entry. card (entry_times np entry)) es)"
    using assms(2) iv by (intro overlap_n_loop_later) simp_all
  finally have "overlap_n_loop np 0 intervals [] [] =
      Inr (filter (\<lambda>t. \<forall>entry\<in>set es. t \<in> entry_times np entry) ts,
           map (\<lambda>entry. card (entry_times np entry)) intervals)"
    using iv len by simp
  moreover have "distinct (filter (\<lambda>t. \<forall>entry\<in>set es. t \<in> entry_times np entry) ts)"
    using ts(2) by simp
  moreover have "set (filter (\<lambda>t. \<forall>entry\<in>set es. t \<in> entry_times np entry) ts)
      = (\<Inter>entry\<in>set intervals. entry_times np entry)"
    using ts(3) iv by auto
  ultimately show ?thesis by blast
qed

text \<open>
  What \<open>find_overlap_n\<close> returns when no entry raises: the sorted list without duplicates
  of the times common to the time sets of all entries, with the sizes of these sets.
  With the result numpy documents for \<open>arange\<close>, the time set of an interval \<open>[a, b]\<close> of
  Python numbers is made of the instants \<open>a, a + 1, \<dots>\<close> below \<open>b + 1\<close>, and that of a list
  of intervals is the union.
\<close>

lemma find_overlap_n_unit_step_times:
  "(intervals \<noteq> [] \<and> (\<forall>entry\<in>set intervals. possible_times np entry \<noteq> Inl IndexError) \<longrightarrow>
      (\<exists>ts. find_overlap_n np intervals
               = Overlap ts (map (\<lambda>entry. card (entry_times np entry)) intervals)
           \<and> sorted ts \<and> distinct ts
           \<and> set ts = (\<Inter>entry\<in>set intervals. entry_times np entry)))
   \<and> entry_times arange_values (Single PythonNumber (a, b)) = {a + real k | k. a + real k < b + 1}
   \<and> entry_times arange_values (Multi ivs)
       = (\<Union>iv\<in>set ivs. entry_times arange_values (Single PythonNumber iv))"
  (is "(?pre \<longrightarrow> ?common) \<and> ?single \<and> ?multi")
proof -
  have common: "?pre \<longrightarrow> ?common"
  proof
    assume pre: ?pre
    then obtain joined where
      j: "overlap_n_loop np 0 intervals [] [] =
            Inr (joined, map (\<lambda>entry. card (entry_times np entry)) intervals)"
         "distinct joined" "set joined = (\<Inter>entry\<in>set intervals. entry_times np entry)"
      using overlap_n_loop_first [of intervals np] by blast
    have "find_overlap_n np intervals =
            Overlap (sort joined) (map (\<lambda>entry. card (entry_times np entry)) intervals)"
      using j(1) by (simp add: find_overlap_n_def)
    moreover have "sorted (sort joined)" "distinct (sort joined)"
      using j(2) by simp_all
    moreover have "set (sort joined) = (\<Inter>entry\<in>set intervals. entry_times np entry)"
      using j(3) by simp
    ultimately show ?common
      by blast
  qed
  have single: ?single
    using arange_values_set [of 1 a "b + 1"]
    by (simp add: entry_times_def possible_times_def)
  have multi: ?multi
    by (cases ivs) (simp_all add: entry_times_def possible_times_def)
  show ?thesis
    by (rule conjI [OF common conjI [OF single multi]])
qed

text \<open>
  C8: \<open>find_overlap_n\<close> does not always return the instants common to the intervals. The
  intervals \<open>[0.5, 3]\<close> and \<open>[3.5, 6]\<close> are disjoint, and the result is \<open>([3.5], [4, 4])\<close>: the
  time set of \<open>[0.5, 3]\<close> holds \<open>3.5\<close>. The intervals \<open>[0, 2]\<close> and \<open>[1.5, 3]\<close> overlap, and the
  result is \<open>([], [3, 3])\<close>. For the intervals \<open>[0, 4]\<close> and \<open>[2, 6]\<close> the result is
  \<open>([2, 3, 4], [5, 5])\<close> when the endpoints are Python numbers and \<open>0\<close> when they are
  numpy scalars; two equal intervals of numpy scalars give back the first of them.
\<close>

theorem find_overlap_n_of_disjoint_intervals:
  "find_overlap_n arange_values
      [Single PythonNumber (1 / 2, 3), Single PythonNumber (7 / 2, 6)] = Overlap [7 / 2] [4, 4]
   \<and> (3 :: real) < 7 / 2
   \<and> find_overlap_n arange_values
        [Single PythonNumber (0, 2), Single PythonNumber (3 / 2, 3)] = Overlap [] [3, 3]
   \<and> (3 / 2 :: real) \<le> 2
   \<and> find_overlap_n arange_values
        [Single NumpyScalar (0, 4), Single NumpyScalar (2, 6)] = Zero
   \<and> find_overlap_n arange_values
        [Single NumpyScalar (0, 4), Single PythonNumber (0, 4)]
       = FirstEntry (Single NumpyScalar (0, 4))
   \<and> find_overlap_n arange_values
        [Single PythonNumber (0, 4), Single PythonNumber (2, 6)] = Overlap [2, 3, 4] [5, 5]"
  by code_simp

section \<open>Properties of the phase overlap check\<close>

lemma dict_set_fresh: "k \<notin> fst ` set d \<Longrightarrow> dict_set d k v = d @ [(k, v)]"
  by (induction d k v rule: dict_set.induct) auto

lemma foldl_dict_set_distinct:
  "distinct (map fst d @ map fst sp) \<Longrightarrow>
     foldl (\<lambda>d (n, s, e). dict_set d n (s, e)) d sp = d @ map (\<lambda>(n, s, e). (n, (s, e))) sp"
proof (induction sp arbitrary: d)
  case Nil
  then show ?case by simp
next
  case (Cons p sp)
  obtain n s e where p: "p = (n, s, e)" by (cases p)
  have fresh: "n \<notin> fst ` set d"
    using Cons.prems p by auto
  have "distinct (map fst (d @ [(n, (s, e))]) @ map fst sp)"
    using Cons.prems p by auto
  then have "foldl (\<lambda>d (n, s, e). dict_set d n (s, e)) (d @ [(n, (s, e))]) sp
      = (d @ [(n, (s, e))]) @ map (\<lambda>(n, s, e). (n, (s, e))) sp"
    by (rule Cons.IH)
  then show ?case
    using p fresh by (simp add: dict_set_fresh)
qed

lemma dict_of_tuple_distinct:
  "distinct (map fst sp) \<Longrightarrow> dict_of_tuple sp = map (\<lambda>(n, s, e). (n, (s, e))) sp"
  using foldl_dict_set_distinct [of "[]" sp] by (simp add: dict_of_tuple_def)

lemma overlap_loop_raises_iff:
  "length rest + i = length int_low \<Longrightarrow>
     overlap_loop i rest int_low int_high =
       (if \<exists>j. i \<le> j \<and> j + 1 < length int_low \<and> int_low ! (j + 1) \<le> int_high ! j
        then Inl GlobalPhasesOverlap else Inr ())"
proof (induction rest arbitrary: i)
  case Nil
  then show ?case by simp
next
  case (Cons il rest)
  show ?case
  proof (cases "i + 1 = length int_low")
    case True
    then show ?thesis by simp
  next
    case last: False
    show ?thesis
    proof (cases "int_low ! (i + 1) \<le> int_high ! i")
      case True
      moreover have "i + 1 < length int_low"
        using Cons.prems last by simp
      ultimately have "\<exists>j. i \<le> j \<and> j + 1 < length int_low \<and> int_low ! (j + 1) \<le> int_high ! j"
        by blast
      then show ?thesis
        using last True by simp
    next
      case False
      have "length rest + (i + 1) = length int_low"
        using Cons.prems by simp
      then have ih: "overlap_loop (i + 1) rest int_low int_high =
         (if \<exists>j. i + 1 \<le> j \<and> j + 1 < length int_low \<and> int_low ! (j + 1) \<le> int_high ! j
          then Inl GlobalPhasesOverlap else Inr ())"
        by (rule Cons.IH)
      have "(\<exists>j. i + 1 \<le> j \<and> j + 1 < length int_low \<and> int_low ! (j + 1) \<le> int_high ! j)
          = (\<exists>j. i \<le> j \<and> j + 1 < length int_low \<and> int_low ! (j + 1) \<le> int_high ! j)"
      proof (intro iffI; elim exE conjE)
        fix j
        assume "i + 1 \<le> j" "j + 1 < length int_low" "int_low ! (j + 1) \<le> int_high ! j"
        then show "\<exists>j. i \<le> j \<and> j + 1 < length int_low \<and> int_low ! (j + 1) \<le> int_high ! j"
          by (intro exI [of _ j]) simp
      next
        fix j
        assume j: "i \<le> j" "j + 1 < length int_low" "int_low ! (j + 1) \<le> int_high ! j"
        with False have "j \<noteq> i" by auto
        with j(1) have "i + 1 \<le> j" by simp
        with j show "\<exists>j. i + 1 \<le> j \<and> j + 1 < length int_low \<and> int_low ! (j + 1) \<le> int_high ! j"
          by blast
      qed
      then show ?thesis
        using last False ih by simp
    qed
  qed
qed

lemma sorted_nth_downward:
  fixes xs :: "real list"
  assumes "\<And>y z. y \<le> z \<Longrightarrow> P z \<Longrightarrow> P y"
  shows "sorted xs \<Longrightarrow> i < length xs \<Longrightarrow> P (xs ! i) = (i < length (filter P xs))"
proof (induction xs arbitrary: i)
  case Nil
  then show ?case by simp
next
  case (Cons a xs)
  show ?case
  proof (cases "P a")
    case True
    show ?thesis
    proof (cases i)
      case 0
      with True show ?thesis by simp
    next
      case (Suc j)
      with Cons True show ?thesis by simp
    qed
  next
    case False
    have none: "\<not> P y" if "y \<in> set (a # xs)" for y
      using that Cons.prems(1) False assms [of a y] by auto
    have "(a # xs) ! i \<in> set (a # xs)"
      using Cons.prems(2) by (rule nth_mem)
    then have "\<not> P ((a # xs) ! i)"
      by (rule none)
    moreover have "filter P (a # xs) = []"
      using none by (simp add: filter_empty_conv)
    ultimately show ?thesis by simp
  qed
qed

lemma length_filter_sort:
  "length (filter P (sort (xs :: real list))) = length (filter P xs)"
proof -
  have "mset (filter P (sort xs)) = mset (filter P xs)"
    by simp
  then show ?thesis
    by (metis size_mset)
qed

lemma count_starts_split:
  fixes sp :: "('n \<times> real \<times> real) list"
  shows "\<forall>p\<in>set sp. fst (snd p) \<le> snd (snd p) \<Longrightarrow>
     length (filter (\<lambda>p. fst (snd p) \<le> x) sp) =
       length (filter (\<lambda>p. snd (snd p) < x) sp)
       + length (filter (\<lambda>p. fst (snd p) \<le> x \<and> x \<le> snd (snd p)) sp)"
  by (induction sp) auto

lemma sorted_starts_nth:
  fixes sp :: "('n \<times> real \<times> real) list"
  assumes "j < length sp"
  shows "(sort (map (\<lambda>p. fst (snd p)) sp) ! j \<le> x)
           = (j < length (filter (\<lambda>p. fst (snd p) \<le> x) sp))"
proof -
  have "(sort (map (\<lambda>p. fst (snd p)) sp) ! j \<le> x)
      = (j < length (filter (\<lambda>y. y \<le> x) (sort (map (\<lambda>p. fst (snd p)) sp))))"
    using assms by (intro sorted_nth_downward) simp_all
  then show ?thesis
    by (simp add: length_filter_sort comp_def)
qed

lemma sorted_ends_nth:
  fixes sp :: "('n \<times> real \<times> real) list"
  assumes "j < length sp"
  shows "(sort (map (\<lambda>p. snd (snd p)) sp) ! j < x)
           = (j < length (filter (\<lambda>p. snd (snd p) < x) sp))"
proof -
  have "(sort (map (\<lambda>p. snd (snd p)) sp) ! j < x)
      = (j < length (filter (\<lambda>y. y < x) (sort (map (\<lambda>p. snd (snd p)) sp))))"
    using assms by (intro sorted_nth_downward) simp_all
  then show ?thesis
    by (simp add: length_filter_sort comp_def)
qed

lemma two_in_filter:
  assumes "distinct xs"
  shows "(2 \<le> length (filter P xs)) = (\<exists>p\<in>set xs. \<exists>q\<in>set xs. p \<noteq> q \<and> P p \<and> P q)"
proof -
  have fin: "finite ({x. P x} \<inter> set xs)" by simp
  have "(2 \<le> length (filter P xs)) = (\<not> card ({x. P x} \<inter> set xs) \<le> Suc 0)"
    using assms by (simp add: distinct_length_filter) linarith
  also have "\<dots> = (\<not> (\<forall>a\<in>{x. P x} \<inter> set xs. \<forall>b\<in>{x. P x} \<inter> set xs. a = b))"
    using card_le_Suc0_iff_eq [OF fin] by simp
  also have "\<dots> = (\<exists>p\<in>set xs. \<exists>q\<in>set xs. p \<noteq> q \<and> P p \<and> P q)"
    by blast
  finally show ?thesis .
qed

lemma sorted_bounds_overlap_iff:
  fixes sp :: "('n \<times> real \<times> real) list"
  assumes wf: "\<forall>p\<in>set sp. fst (snd p) \<le> snd (snd p)"
  shows "(\<exists>j. j + 1 < length sp
            \<and> sort (map (\<lambda>p. fst (snd p)) sp) ! (j + 1) \<le> sort (map (\<lambda>p. snd (snd p)) sp) ! j)
     = (\<exists>x. 2 \<le> length (filter (\<lambda>p. fst (snd p) \<le> x \<and> x \<le> snd (snd p)) sp))"
  (is "?L = ?R")
proof
  assume ?L
  then obtain j where j: "j + 1 < length sp"
    "sort (map (\<lambda>p. fst (snd p)) sp) ! (j + 1) \<le> sort (map (\<lambda>p. snd (snd p)) sp) ! j"
    by blast
  define x where "x = sort (map (\<lambda>p. fst (snd p)) sp) ! (j + 1)"
  have "j + 1 < length (filter (\<lambda>p. fst (snd p) \<le> x) sp)"
    using sorted_starts_nth [of "j + 1" sp x] j(1) by (simp add: x_def)
  moreover have "\<not> sort (map (\<lambda>p. snd (snd p)) sp) ! j < x"
    using j(2) by (simp add: x_def)
  then have "\<not> j < length (filter (\<lambda>p. snd (snd p) < x) sp)"
    using sorted_ends_nth [of j sp x] j(1) by simp
  ultimately have "2 \<le> length (filter (\<lambda>p. fst (snd p) \<le> x \<and> x \<le> snd (snd p)) sp)"
    using count_starts_split [OF wf, of x] by linarith
  then show ?R ..
next
  assume ?R
  then obtain x where x: "2 \<le> length (filter (\<lambda>p. fst (snd p) \<le> x \<and> x \<le> snd (snd p)) sp)"
    by blast
  define m where "m = length (filter (\<lambda>p. snd (snd p) < x) sp)"
  have big: "m + 1 < length (filter (\<lambda>p. fst (snd p) \<le> x) sp)"
    using count_starts_split [OF wf, of x] x by (simp add: m_def)
  have "length (filter (\<lambda>p. fst (snd p) \<le> x) sp) \<le> length sp"
    by (rule length_filter_le)
  with big have len: "m + 1 < length sp"
    by linarith
  have "sort (map (\<lambda>p. fst (snd p)) sp) ! (m + 1) \<le> x"
    using sorted_starts_nth [of "m + 1" sp x] len big by simp
  moreover have "\<not> sort (map (\<lambda>p. snd (snd p)) sp) ! m < x"
    using sorted_ends_nth [of m sp x] len by (simp add: m_def)
  ultimately have
    "sort (map (\<lambda>p. fst (snd p)) sp) ! (m + 1) \<le> sort (map (\<lambda>p. snd (snd p)) sp) ! m"
    by linarith
  with len show ?L by blast
qed

lemma find_any_phase_overlap_sorted_bounds:
  assumes "distinct (map fst sp)"
  shows "find_any_phase_overlap sp =
     (if \<exists>j. j + 1 < length sp
            \<and> sort (map (\<lambda>p. fst (snd p)) sp) ! (j + 1) \<le> sort (map (\<lambda>p. snd (snd p)) sp) ! j
      then Inl GlobalPhasesOverlap else Inr ())"
proof -
  have lows: "map fst (map snd (map (\<lambda>(n, s, e). (n, (s, e))) sp)) = map (\<lambda>p. fst (snd p)) sp"
    by (simp add: comp_def case_prod_unfold)
  have highs: "map snd (map snd (map (\<lambda>(n, s, e). (n, (s, e))) sp)) = map (\<lambda>p. snd (snd p)) sp"
    by (simp add: comp_def case_prod_unfold)
  have "find_any_phase_overlap sp =
      overlap_loop 0 (sort (map (\<lambda>p. fst (snd p)) sp)) (sort (map (\<lambda>p. fst (snd p)) sp))
        (sort (map (\<lambda>p. snd (snd p)) sp))"
    unfolding find_any_phase_overlap_def Let_def dict_of_tuple_distinct [OF assms] lows highs ..
  also have "\<dots> = (if \<exists>j. 0 \<le> j \<and> j + 1 < length (sort (map (\<lambda>p. fst (snd p)) sp))
            \<and> sort (map (\<lambda>p. fst (snd p)) sp) ! (j + 1) \<le> sort (map (\<lambda>p. snd (snd p)) sp) ! j
      then Inl GlobalPhasesOverlap else Inr ())"
    by (rule overlap_loop_raises_iff) simp
  finally show ?thesis by simp
qed

text \<open>
  C1 (as amended): the overlap check belongs to the simulation parameters, not to the
  phase map. For a tuple of phases with distinct names and \<open>start \<le> end\<close>,
  \<open>find_any_phase_overlap\<close>, which the constructor of \<open>SimParam\<close> calls, raises exactly
  when two phases of different names share a time point, and returns normally
  otherwise. The constructor of \<open>PhaseMap\<close> checks nothing: it returns a phase map for
  every argument, as a dict or as a tuple.
\<close>

theorem overlap_checked_by_find_any_phase_overlap:
  "(distinct (map fst sp) \<and> (\<forall>(n, s, e)\<in>set sp. s \<le> e) \<longrightarrow>
      find_any_phase_overlap sp =
        (if \<exists>(n1, s1, e1)\<in>set sp. \<exists>(n2, s2, e2)\<in>set sp.
              n1 \<noteq> n2 \<and> (\<exists>x. s1 \<le> x \<and> x \<le> e1 \<and> s2 \<le> x \<and> x \<le> e2)
         then Inl GlobalPhasesOverlap else Inr ()))
   \<and> PhaseMap_init phs mph d =
        Inr \<lparr>phases = (case phs of PhasesTuple t \<Rightarrow> dict_of_tuple t | PhasesDict p \<Rightarrow> p),
             modephases = mph, dt = d\<rparr>"
  (is "(?wf \<longrightarrow> ?sim) \<and> ?pmap")
proof -
  have sim: "?wf \<longrightarrow> ?sim"
  proof
    assume a: ?wf
    then have names: "distinct (map fst sp)" and wf: "\<forall>p\<in>set sp. fst (snd p) \<le> snd (snd p)"
      by auto
    have dist: "distinct sp" and inj: "inj_on fst (set sp)"
      using names by (simp_all add: distinct_map)
    have "(\<exists>j. j + 1 < length sp
            \<and> sort (map (\<lambda>p. fst (snd p)) sp) ! (j + 1) \<le> sort (map (\<lambda>p. snd (snd p)) sp) ! j)
        = (\<exists>x. 2 \<le> length (filter (\<lambda>p. fst (snd p) \<le> x \<and> x \<le> snd (snd p)) sp))"
      using wf by (rule sorted_bounds_overlap_iff)
    also have "\<dots> = (\<exists>x. \<exists>p\<in>set sp. \<exists>q\<in>set sp. p \<noteq> q
                         \<and> (fst (snd p) \<le> x \<and> x \<le> snd (snd p))
                         \<and> (fst (snd q) \<le> x \<and> x \<le> snd (snd q)))"
      using two_in_filter [OF dist] by simp
    also have "\<dots> = (\<exists>(n1, s1, e1)\<in>set sp. \<exists>(n2, s2, e2)\<in>set sp.
              n1 \<noteq> n2 \<and> (\<exists>x. s1 \<le> x \<and> x \<le> e1 \<and> s2 \<le> x \<and> x \<le> e2))"
      (is "?A = ?B")
    proof
      assume ?A
      then obtain x p q where pq: "p \<in> set sp" "q \<in> set sp" "p \<noteq> q"
        "fst (snd p) \<le> x" "x \<le> snd (snd p)" "fst (snd q) \<le> x" "x \<le> snd (snd q)"
        by blast
      from pq(1-3) inj have "fst p \<noteq> fst q"
        by (auto dest: inj_onD)
      with pq have "\<exists>p\<in>set sp. \<exists>q\<in>set sp. fst p \<noteq> fst q
          \<and> (\<exists>x. fst (snd p) \<le> x \<and> x \<le> snd (snd p) \<and> fst (snd q) \<le> x \<and> x \<le> snd (snd q))"
        by blast
      then show ?B
        by (simp add: case_prod_unfold)
    next
      assume ?B
      then obtain p q x where pq: "p \<in> set sp" "q \<in> set sp" "fst p \<noteq> fst q"
        "fst (snd p) \<le> x" "x \<le> snd (snd p)" "fst (snd q) \<le> x" "x \<le> snd (snd q)"
        by (auto simp: case_prod_unfold)
      then have "p \<noteq> q" by auto
      with pq show ?A by blast
    qed
    finally show ?sim
      using find_any_phase_overlap_sorted_bounds [OF names] by simp
  qed
  have pmap: ?pmap
    by (simp add: PhaseMap_init_def)
  show ?thesis
    by (rule conjI [OF sim pmap])
qed

theorem overlap_checked_by_find_any_phase_overlap_witness:
  "distinct (map fst [(''a'', 0 :: real, 5 :: real), (''b'', 3, 8)])
   \<and> (0 :: real) \<le> 5 \<and> (3 :: real) \<le> 8
   \<and> find_any_phase_overlap [(''a'', 0, 5), (''b'', 3, 8)] = Inl GlobalPhasesOverlap
   \<and> distinct (map fst [(''taxi'', 0 :: real, 0 :: real), (''move'', 1, 11), (''land'', 12, 20)])
   \<and> find_any_phase_overlap [(''taxi'', 0, 0), (''move'', 1, 11), (''land'', 12, 20)] = Inr ()"
proof -
  let ?sp = "[(''a'', 0 :: real, 5 :: real), (''b'', 3, 8)]"
  let ?ok = "[(''taxi'', 0 :: real, 0 :: real), (''move'', 1, 11), (''land'', 12, 20)]"
  have h: "distinct (map fst ?sp) \<and> (\<forall>(n, s, e)\<in>set ?sp. s \<le> e)"
    by simp
  have "(4 :: real) \<in> {0..5} \<inter> {3..8}"
    by simp
  then have ov: "\<exists>(n1, s1, e1)\<in>set ?sp. \<exists>(n2, s2, e2)\<in>set ?sp.
              n1 \<noteq> n2 \<and> (\<exists>x. s1 \<le> x \<and> x \<le> e1 \<and> s2 \<le> x \<and> x \<le> e2)"
    by (intro bexI [of _ "(''a'', 0, 5)"] bexI [of _ "(''b'', 3, 8)"]) auto
  have c1: "find_any_phase_overlap ?sp = Inl GlobalPhasesOverlap"
    using overlap_checked_by_find_any_phase_overlap [where sp = ?sp] h ov by presburger
  have h2: "distinct (map fst ?ok) \<and> (\<forall>(n, s, e)\<in>set ?ok. s \<le> e)"
    by simp
  have no: "\<not> (\<exists>(n1, s1, e1)\<in>set ?ok. \<exists>(n2, s2, e2)\<in>set ?ok.
              n1 \<noteq> n2 \<and> (\<exists>x. s1 \<le> x \<and> x \<le> e1 \<and> s2 \<le> x \<and> x \<le> e2))"
    by auto
  have c2: "find_any_phase_overlap ?ok = Inr ()"
    using overlap_checked_by_find_any_phase_overlap [where sp = ?ok] h2 no by presburger
  show ?thesis
    using c1 c2 by simp
qed

text \<open>
  C1 as stated fails: the intervals \<open>a = [0, 5]\<close> and \<open>b = [3, 8]\<close> share the time \<open>4\<close>,
  and \<^verbatim>\<open>PhaseMap({'a': [0, 5], 'b': [3, 8]})\<close>, like the same phases given as a tuple,
  is constructed without error; \<open>find_phase\<close> then answers \<open>a\<close> for the time \<open>4\<close>.
\<close>

theorem phase_map_accepts_overlap_counterexample:
  "(0 :: real) \<le> 4 \<and> (4 :: real) \<le> 5 \<and> (3 :: real) \<le> 4 \<and> (4 :: real) \<le> 8
   \<and> PhaseMap_init (PhasesDict [(''a'', (0, 5)), (''b'', (3, 8))]) [] 1
       = Inr \<lparr>phases = [(''a'', (0, 5)), (''b'', (3, 8))], modephases = [], dt = 1\<rparr>
   \<and> PhaseMap_init (PhasesTuple [(''a'', 0, 5), (''b'', 3, 8)]) [] 1
       = Inr \<lparr>phases = [(''a'', (0, 5)), (''b'', (3, 8))], modephases = [], dt = 1\<rparr>
   \<and> find_phase \<lparr>phases = [(''a'', (0, 5)), (''b'', (3, 8))], modephases = [], dt = 1\<rparr> 4 1
       = Inr ''a''"
  by (simp add: PhaseMap_init_def dict_of_tuple_def find_phase_def)

section \<open>Properties of the limit check\<close>

lemma check_lim_loop_raises:
  "j < length ks \<Longrightarrow>
   (if i + j < length args then Some (args ! (i + j)) else map_of kwargs (ks ! j)) = Some v \<Longrightarrow>
   check_lim cls (ks ! j) v = Inl e \<Longrightarrow>
   \<exists>err. check_lim_loop cls i ks args kwargs = Inl err"
proof (induction ks arbitrary: i j)
  case Nil
  then show ?case by simp
next
  case (Cons k ks)
  show ?case
  proof (cases j)
    case 0
    with Cons.prems show ?thesis by (auto split: if_splits)
  next
    case (Suc j')
    have "j' < length ks"
      using Cons.prems(1) Suc by simp
    moreover have "(if (i + 1) + j' < length args then Some (args ! ((i + 1) + j'))
                    else map_of kwargs (ks ! j')) = Some v"
      using Cons.prems(2) Suc by (simp split: if_splits)
    moreover have "check_lim cls (ks ! j') v = Inl e"
      using Cons.prems(3) Suc by simp
    ultimately have "\<exists>err. check_lim_loop cls (i + 1) ks args kwargs = Inl err"
      by (rule Cons.IH)
    then show ?thesis by (auto split: sum.splits)
  qed
qed

lemma check_lim_loop_passes:
  "check_lim_loop cls i ks args kwargs = Inr u \<Longrightarrow> j < length ks \<Longrightarrow>
   (if i + j < length args then Some (args ! (i + j)) else map_of kwargs (ks ! j)) = Some v \<Longrightarrow>
   check_lim cls (ks ! j) v = Inr ()"
proof (induction ks arbitrary: i j)
  case Nil
  then show ?case by simp
next
  case (Cons k ks)
  show ?case
  proof (cases j)
    case 0
    with Cons.prems show ?thesis by (auto split: if_splits sum.splits option.splits)
  next
    case (Suc j')
    have "check_lim_loop cls (i + 1) ks args kwargs = Inr u"
      using Cons.prems(1) by (auto split: sum.splits)
    moreover have "j' < length ks"
      using Cons.prems(2) Suc by simp
    moreover have "(if (i + 1) + j' < length args then Some (args ! ((i + 1) + j'))
                    else map_of kwargs (ks ! j')) = Some v"
      using Cons.prems(3) Suc by (simp split: if_splits)
    ultimately have "check_lim cls (ks ! j') v = Inr ()"
      by (rule Cons.IH)
    then show ?thesis using Suc by simp
  qed
qed

lemma check_lim_violation:
  "(\<exists>lo hi x. map_of (lims cls) k = Some (lo, hi) \<and> v = Num x \<and> \<not> (lo \<le> x \<and> x \<le> hi))
     \<or> (\<exists>S. map_of (sets cls) k = Some S \<and> S \<noteq> [] \<and> v \<notin> set S)
   \<Longrightarrow> \<exists>e. check_lim cls k v = Inl e"
  by (auto simp: check_lim_def split: option.splits pyval.splits sum.splits)

lemma check_lim_ok:
  "check_lim cls k v = Inr () \<Longrightarrow>
     (\<forall>lo hi. map_of (lims cls) k = Some (lo, hi) \<longrightarrow> (\<exists>x. v = Num x \<and> lo \<le> x \<and> x \<le> hi))
     \<and> (\<forall>S. map_of (sets cls) k = Some S \<longrightarrow> S = [] \<or> v \<in> set S)"
  by (auto simp: check_lim_def split: option.splits pyval.splits sum.splits if_splits)

text \<open>
  C7 (as amended): with limit checking enabled (\<^verbatim>\<open>check_lim=True\<close>, the default),
  constructing an instance with a supplied numeric field value outside the declared
  \<^verbatim>\<open>k_lim\<close> bounds, or a supplied value that is not in a declared non-empty \<^verbatim>\<open>k_set\<close>,
  raises an error before the instance is built; a construction that succeeds has every
  supplied value within its declared limits. With \<^verbatim>\<open>check_lim=False\<close> the limit check
  is skipped and the values go to the record constructor unchecked.
\<close>

theorem limit_check_at_construction:
  "(i < length (class_fields cls) \<and> supplied cls (init_values args) kwargs i = Some v
      \<and> ((\<exists>lo hi x. map_of (lims cls) (class_fields cls ! i) = Some (lo, hi) \<and> v = Num x
                     \<and> \<not> (lo \<le> x \<and> x \<le> hi))
         \<or> (\<exists>S. map_of (sets cls) (class_fields cls ! i) = Some S \<and> S \<noteq> [] \<and> v \<notin> set S))
     \<longrightarrow> (\<exists>err. Parameter_init cls args kwargs True build = Inl err))
   \<and> (Parameter_init cls args kwargs True build = Inr p
        \<and> i < length (class_fields cls) \<and> supplied cls (init_values args) kwargs i = Some v
      \<longrightarrow> (\<forall>lo hi. map_of (lims cls) (class_fields cls ! i) = Some (lo, hi)
                   \<longrightarrow> (\<exists>x. v = Num x \<and> lo \<le> x \<and> x \<le> hi))
          \<and> (\<forall>S. map_of (sets cls) (class_fields cls ! i) = Some S \<longrightarrow> S = [] \<or> v \<in> set S))
   \<and> Parameter_init cls args kwargs False build =
        (if has_doc cls then build (init_values args) kwargs else Inl NoDocstring)"
  (is "(?viol \<longrightarrow> ?raises) \<and> (?built \<longrightarrow> ?within) \<and> ?skipped")
proof -
  have raises: "?viol \<longrightarrow> ?raises"
  proof
    assume a: ?viol
    then obtain e where "check_lim cls (class_fields cls ! i) v = Inl e"
      using check_lim_violation [of cls "class_fields cls ! i" v] by blast
    moreover have "(if 0 + i < length (init_values args) then Some (init_values args ! (0 + i))
           else map_of kwargs (class_fields cls ! i)) = Some v"
      using a by (simp add: supplied_def split: if_splits)
    moreover have "i < length (class_fields cls)"
      using a by simp
    ultimately have
      "\<exists>err. check_lim_loop cls 0 (class_fields cls) (init_values args) kwargs = Inl err"
      using check_lim_loop_raises by blast
    then show ?raises
      by (auto simp: Parameter_init_def)
  qed
  have within: "?built \<longrightarrow> ?within"
  proof
    assume a: ?built
    then have "check_lim_loop cls 0 (class_fields cls) (init_values args) kwargs = Inr ()"
      by (auto simp: Parameter_init_def split: if_splits sum.splits)
    moreover have "i < length (class_fields cls)"
      using a by simp
    moreover have "(if 0 + i < length (init_values args) then Some (init_values args ! (0 + i))
           else map_of kwargs (class_fields cls ! i)) = Some v"
      using a by (simp add: supplied_def split: if_splits)
    ultimately have "check_lim cls (class_fields cls ! i) v = Inr ()"
      by (rule check_lim_loop_passes)
    then show ?within
      by (rule check_lim_ok)
  qed
  have skipped: ?skipped
    by (simp add: Parameter_init_def)
  show ?thesis
    by (rule conjI [OF raises conjI [OF within skipped]])
qed

theorem limit_check_at_construction_witness:
  "(1::nat) < length (class_fields ExampleParameter)
   \<and> supplied ExampleParameter (init_values (Positional [Num 20])) [(''y'', Num 5)] 1 = Some (Num 5)
   \<and> map_of (sets ExampleParameter) (class_fields ExampleParameter ! 1) = Some [Num 1, Num 2, Num 3, Num 4]
   \<and> Num 5 \<notin> set [Num 1, Num 2, Num 3, Num 4]
   \<and> supplied ExampleParameter (init_values (Positional [Num 1])) [(''y'', Num 2)] 1 = Some (Num 2)
   \<and> Parameter_init ExampleParameter (Positional [Num 1]) [(''y'', Num 2)] True
        (\<lambda>args kwargs. Inr (args, kwargs)) = Inr ([Num 1], [(''y'', Num 2)])
   \<and> (\<exists>err. Parameter_init ExampleParameter (Positional [Num 20]) [(''y'', Num 5)] True
        (\<lambda>args kwargs. Inr (args, kwargs)) = Inl err)"
  using limit_check_at_construction
    [where cls = ExampleParameter and i = 1 and args = "Positional [Num 20]"
       and kwargs = "[(''y'', Num 5)]" and v = "Num 5"
       and build = "\<lambda>args kwargs. Inr (args, kwargs)"]
    limit_check_at_construction
    [where cls = ExampleParameter and i = 1 and args = "Positional [Num 1]"
       and kwargs = "[(''y'', Num 2)]" and v = "Num 2"
       and build = "\<lambda>args kwargs. Inr (args, kwargs)" and p = "([Num 1], [(''y'', Num 2)])"]
  by (simp add: ExampleParameter_def supplied_def Parameter_init_def check_lim_def)

text \<open>
  C7 as stated fails: for \<^verbatim>\<open>ExampleParameter\<close> with \<^verbatim>\<open>x_lim = (0, 10)\<close>, the call
  \<^verbatim>\<open>ExampleParameter(x=20.0, check_lim=False)\<close> passes the value \<open>20\<close>, which
  \<open>check_lim\<close> rejects, on to the record constructor without any limit error.
\<close>

theorem limit_check_skipped_counterexample:
  "check_lim ExampleParameter ''x'' (Num 20) = Inl (OutsideLimits ''x'')
   \<and> Parameter_init ExampleParameter (Positional []) [(''x'', Num 20)] False
        (\<lambda>args kwargs. Inr (args, kwargs)) = Inr ([], [(''x'', Num 20)])"
  by (simp add: ExampleParameter_def Parameter_init_def check_lim_def)

section \<open>Properties of timers\<close>

lemma run_calls_invariant:
  "time tm = 0 \<Longrightarrow> tstep tm = - 1 \<Longrightarrow>
     time (foldl do_call tm calls) = 0 \<and> tstep (foldl do_call tm calls) = - 1"
proof (induction calls arbitrary: tm)
  case Nil
  then show ?case by simp
next
  case (Cons c calls)
  have "time (do_call tm c) = 0 \<and> tstep (do_call tm c) = - 1"
    using Cons.prems by (cases c) (simp_all add: inc_def reset_def Let_def)
  then show ?case using Cons.IH by simp
qed

text \<open>
  C10: starting from a freshly constructed timer, after every finite sequence of calls
  of \<open>inc()\<close> (default step) and \<open>reset()\<close> the time is non-negative, and it is so after
  one more \<open>inc()\<close>; every \<open>inc()\<close> of such a sequence leaves the time at exactly \<open>0\<close> and
  the mode at \<open>complete\<close>. For any timer, when \<open>inc()\<close> brings the time to zero or below,
  the time is set to \<open>0\<close> and the mode to \<open>complete\<close>.
\<close>

theorem timer_time_nonnegative:
  "0 \<le> time (run_calls (Timer_init n) calls)
   \<and> time (run_calls (Timer_init n) (calls @ [Inc])) = 0
   \<and> mode (run_calls (Timer_init n) (calls @ [Inc])) = ''complete''
   \<and> ((if 0 \<le> time tm then time tm + tstep tm else time tm) \<le> 0 \<longrightarrow>
        time (inc tm None) = 0 \<and> mode (inc tm None) = ''complete'')"
proof -
  have inv: "time (run_calls (Timer_init n) cs) = 0 \<and> tstep (run_calls (Timer_init n) cs) = - 1"
    for cs
    unfolding run_calls_def by (rule run_calls_invariant) (simp_all add: Timer_init_def)
  have step: "run_calls (Timer_init n) (calls @ [Inc]) = inc (run_calls (Timer_init n) calls) None"
    by (simp add: run_calls_def)
  have clamp: "(if 0 \<le> time tm then time tm + tstep tm else time tm) \<le> 0 \<longrightarrow>
        time (inc tm None) = 0 \<and> mode (inc tm None) = ''complete''"
    by (simp add: inc_def Let_def)
  show ?thesis
    using inv [of calls] inv [of "calls @ [Inc]"] clamp
    by (simp add: step inc_def Let_def)
qed

theorem timer_time_nonnegative_witness:
  "(if 0 \<le> time (Timer_init ''t'')
      then time (Timer_init ''t'') + tstep (Timer_init ''t'')
      else time (Timer_init ''t'')) \<le> 0
   \<and> time (inc (Timer_init ''t'') None) = 0
   \<and> mode (inc (Timer_init ''t'') None) = ''complete''"
  using timer_time_nonnegative [of "''t''" "[]" "Timer_init ''t''"]
  by (simp add: Timer_init_def)

end
